theory Spec2Isabelle
  imports Main "HOL-Library.AList"
begin

section \<open>Data model of the lockfile engine\<close>

text \<open>
  \<^verbatim>\<open>ItemVersionList\<close> is a JavaScript object from ids to version (or constraint) strings.
  Its keys are unique and are enumerated in insertion order, so it is an association list;
  \<^verbatim>\<open>k in obj\<close> is membership among the keys, \<^verbatim>\<open>obj[k]\<close> is \<open>map_of\<close>, and
  \<^verbatim>\<open>obj[k] = v\<close> is \<open>AList.update\<close> (an existing key keeps its place, a new one goes last).
  Ids are taken not to be property names of \<^verbatim>\<open>Object.prototype\<close>.
\<close>

type_synonym ItemVersionList = "(string \<times> string) list"

text \<open>
  \<^verbatim>\<open>isInManifest\<close> is optional in the source and is only ever read for its truthiness, so
  an absent flag is \<open>False\<close>.
\<close>

record LockfileGraphNode =
  node_id :: string
  node_version :: string
  node_dependencies :: ItemVersionList
  isInManifest :: bool

record LockfileItemData =
  item_version :: string
  item_dependencies :: ItemVersionList

type_synonym Lockfile = "(string \<times> LockfileItemData) list"

record LockfileDiff =
  install :: ItemVersionList
  uninstall :: "string list"

datatype error =
    UnsolvableDependencyError string
  | DependencyManifestMismatchError string
  | InvalidLockfileOperation string
  | ModNotFoundError string
  | ExternalError string

text \<open>The catalog's record of one loader release; only the fields the resolver reads.\<close>

record FicsitAppSMLVersion =
  sml_release_version :: string
  satisfactory_version :: nat

text \<open>One published mod version of the catalog; the resolver reads its version only.\<close>

record FicsitAppVersion =
  published_mod_id :: string
  published_version :: string

text \<open>
  The metadata \<^verbatim>\<open>getCachedMod\<close> yields (the \<^verbatim>\<open>data.json\<close> of a mod archive): \<^verbatim>\<open>dependencies\<close>
  and \<^verbatim>\<open>sml_version\<close> may be absent.
\<close>

record ModData =
  mod_id :: string
  mod_version :: string
  mod_dependencies :: "ItemVersionList option"
  sml_version :: "string option"

text \<open>
  Everything the resolver obtains from outside this module: the \<^verbatim>\<open>semver\<close> package
  (\<^verbatim>\<open>satisfies\<close>, \<^verbatim>\<open>compare\<close>, and \<^verbatim>\<open>valid(coerce(s))\<close>, which is \<^verbatim>\<open>null\<close> when \<^verbatim>\<open>s\<close> cannot be
  coerced), the two catalog queries behind \<^verbatim>\<open>getAvailableSMLVersions\<close> and \<^verbatim>\<open>getMod\<close>
  (network calls that may throw), and the mod cache \<^verbatim>\<open>getCachedMod\<close>.
\<close>

record env =
  semver_satisfies :: "string \<Rightarrow> string \<Rightarrow> bool"
  semver_compare :: "string \<Rightarrow> string \<Rightarrow> int"
  semver_valid_coerce :: "string \<Rightarrow> string option"
  getAvailableSMLVersions :: "error + FicsitAppSMLVersion list"
  getModVersionList :: "string \<Rightarrow> error + FicsitAppVersion list"
  getCachedMod :: "string \<Rightarrow> string \<Rightarrow> error + ModData"

section \<open>Helpers of the utilities module\<close>

text \<open>
  Modelled from the spec: \<^verbatim>\<open>versionSatisfiesAll\<close> of the utilities module, which is not among
  the sources. The spec: "a version satisfies a set of constraints iff it satisfies each".
\<close>

definition versionSatisfiesAll :: "env \<Rightarrow> string \<Rightarrow> string list \<Rightarrow> bool" where
  "versionSatisfiesAll E v cs = list_all (semver_satisfies E v) cs"

text \<open>
  Modelled from the spec: \<^verbatim>\<open>removeArrayElement\<close> of the utilities module, which is not among
  the sources. The spec: "remove by identity; fails silently if absent". A node object is
  identified with its contents, so the first equal element goes.
\<close>

definition removeArrayElement :: "'a list \<Rightarrow> 'a \<Rightarrow> 'a list" where
  "removeArrayElement xs x = remove1 x xs"

text \<open>
  Modelled from the spec: \<^verbatim>\<open>forEachAsync\<close> of the utilities module, which is not among the
  sources. The callback runs on the elements in order, each call awaited before the next;
  the first error ends the iteration and is the error of the whole. The state reached is
  kept in either case.
\<close>

fun forEachAsync :: "('s \<Rightarrow> 'a \<Rightarrow> 's \<times> error option) \<Rightarrow> 's \<Rightarrow> 'a list \<Rightarrow> 's \<times> error option" where
  "forEachAsync f s [] = (s, None)"
| "forEachAsync f s (x # xs) =
     (case f s x of
        (s', Some e) \<Rightarrow> (s', Some e)
      | (s', None) \<Rightarrow> forEachAsync f s' xs)"

section \<open>Catalog queries\<close>

definition getSMLVersionInfo :: "env \<Rightarrow> string \<Rightarrow> error + FicsitAppSMLVersion option" where
  "getSMLVersionInfo E version =
     (case getAvailableSMLVersions E of
        Inl e \<Rightarrow> Inl e
      | Inr versions \<Rightarrow> Inr (find (\<lambda>smlVersion. sml_release_version smlVersion = version) versions))"

definition findAllVersionsMatchingAll :: "env \<Rightarrow> string \<Rightarrow> string list \<Rightarrow> error + string list" where
  "findAllVersionsMatchingAll E modID versionConstraints =
     (if modID = ''SML'' then
        (case getAvailableSMLVersions E of
           Inl e \<Rightarrow> Inl e
         | Inr smlVersions \<Rightarrow>
             Inr (map sml_release_version
                   (filter (\<lambda>smlVersion. versionSatisfiesAll E (sml_release_version smlVersion) versionConstraints)
                      smlVersions)))
      else
        (case getModVersionList E modID of
           Inl e \<Rightarrow> Inl e
         | Inr versions \<Rightarrow>
             Inr (map published_version
                   (filter (\<lambda>modVersion. versionSatisfiesAll E (published_version modVersion) versionConstraints)
                      versions))))"

section \<open>getItemData\<close>

text \<open>\<^verbatim>\<open>Number.prototype.toString\<close> on a natural number: its decimal digits.\<close>

definition digit_char :: "nat \<Rightarrow> char" where
  "digit_char d = ''0123456789'' ! d"

function toString :: "nat \<Rightarrow> string" where
  "toString n = (if n < 10 then [digit_char n] else toString (n div 10) @ [digit_char (n mod 10)])"
  by pat_completeness auto
termination
  by (relation "measure (\<lambda>n. n)") auto

declare toString.simps [simp del]

text \<open>The template \<^verbatim>\<open>`>=${valid(coerce(s))}`\<close>; a \<^verbatim>\<open>null\<close> is printed as \<^verbatim>\<open>null\<close>.\<close>

definition atLeastConstraint :: "env \<Rightarrow> string \<Rightarrow> string" where
  "atLeastConstraint E s =
     ''>='' @ (case semver_valid_coerce E s of None \<Rightarrow> ''null'' | Some v \<Rightarrow> v)"

definition invalidGameOperationMessage :: string where
  "invalidGameOperationMessage =
     ''SMLauncher cannot modify Satisfactory Game version. This should never happen, unless Satisfactory was not temporarily added to the lockfile as a manifest entry''"

text \<open>
  The dependency object of a cached mod after the two fix-ups of \<^verbatim>\<open>getItemData\<close>: a missing
  object becomes \<^verbatim>\<open>{}\<close>, and a truthy \<^verbatim>\<open>sml_version\<close> (present and not the empty string)
  is written under the key \<^verbatim>\<open>SML\<close>.
\<close>

definition modDependencies :: "env \<Rightarrow> ModData \<Rightarrow> ItemVersionList" where
  "modDependencies E modData =
     (let deps = (case mod_dependencies modData of None \<Rightarrow> [] | Some d \<Rightarrow> d) in
      case sml_version modData of
        None \<Rightarrow> deps
      | Some s \<Rightarrow> if s = [] then deps else AList.update ''SML'' (atLeastConstraint E s) deps)"

definition getItemData :: "env \<Rightarrow> string \<Rightarrow> string \<Rightarrow> error + LockfileGraphNode" where
  "getItemData E ident version =
     (if ident = ''SML'' then
        (case getSMLVersionInfo E version of
           Inl e \<Rightarrow> Inl e
         | Inr None \<Rightarrow> Inl (ModNotFoundError (''SML@'' @ version @ '' not found''))
         | Inr (Some smlVersionInfo) \<Rightarrow>
             Inr \<lparr> node_id = ident, node_version = version,
                   node_dependencies =
                     [(''SatisfactoryGame'',
                       atLeastConstraint E (toString (satisfactory_version smlVersionInfo)))],
                   isInManifest = False \<rparr>)
      else if ident = ''SatisfactoryGame'' then
        Inl (InvalidLockfileOperation invalidGameOperationMessage)
      else
        (case getCachedMod E ident version of
           Inl e \<Rightarrow> Inl e
         | Inr modData \<Rightarrow>
             Inr \<lparr> node_id = mod_id modData, node_version = mod_version modData,
                   node_dependencies = modDependencies E modData,
                   isInManifest = False \<rparr>))"

section \<open>The resolution graph\<close>

text \<open>\<^verbatim>\<open>LockfileGraph.nodes\<close>: the array of nodes, in insertion order.\<close>

type_synonym LockfileGraph = "LockfileGraphNode list"

definition findNode :: "LockfileGraph \<Rightarrow> string \<Rightarrow> LockfileGraphNode option" where
  "findNode g ident = find (\<lambda>graphNode. node_id graphNode = ident) g"

definition getDependants :: "LockfileGraph \<Rightarrow> LockfileGraphNode \<Rightarrow> LockfileGraphNode list" where
  "getDependants g node =
     filter (\<lambda>graphNode. node_id node \<in> set (map fst (node_dependencies graphNode))) g"

definition remove :: "LockfileGraph \<Rightarrow> LockfileGraphNode \<Rightarrow> LockfileGraph" where
  "remove g node = removeArrayElement g node"

text \<open>\<^verbatim>\<open>Array.prototype.push\<close>: appends and does not throw.\<close>

definition push :: "LockfileGraph \<Rightarrow> LockfileGraphNode \<Rightarrow> LockfileGraph \<times> error option" where
  "push g node = (g @ [node], None)"

text \<open>
  \<^verbatim>\<open>add\<close>, with its \<^verbatim>\<open>try\<close>/\<^verbatim>\<open>catch\<close> around the push: on an error the node is removed again and
  the error rethrown.
\<close>

definition add :: "LockfileGraph \<Rightarrow> LockfileGraphNode \<Rightarrow> LockfileGraph \<times> error option" where
  "add g node =
     (if list_ex (\<lambda>graphNode. node_id graphNode = node_id node) g then (g, None)
      else
        (case push g node of
           (g', None) \<Rightarrow> (g', None)
         | (g', Some e) \<Rightarrow> (remove g' node, Some e)))"

definition isNodeDangling :: "LockfileGraph \<Rightarrow> LockfileGraphNode \<Rightarrow> bool" where
  "isNodeDangling g node = (length (getDependants g node) = 0 \<and> \<not> isInManifest node)"

text \<open>
  Modelled from the spec: \<^verbatim>\<open>removeArrayElementWhere\<close> of the utilities module, which is not
  among the sources. The spec on \<^verbatim>\<open>cleanup\<close>: "repeatedly (or in a single linear pass if the
  predicate is a function of the final state after one pass) remove dangling nodes", with
  the invariant "after \<^verbatim>\<open>cleanup()\<close>, every node is either in the manifest or has at least one
  dependant". The repeated reading is the one modelled: the condition reads the array it is
  applied to (the closure reads \<^verbatim>\<open>this.nodes\<close>), so it takes the current array; each round
  drops the elements the condition holds for, and the rounds end when it holds for none.
\<close>

function removeArrayElementWhere :: "'a list \<Rightarrow> ('a list \<Rightarrow> 'a \<Rightarrow> bool) \<Rightarrow> 'a list" where
  "removeArrayElementWhere xs condition =
     (if list_ex (condition xs) xs
      then removeArrayElementWhere (filter (\<lambda>x. \<not> condition xs x) xs) condition
      else xs)"
  by pat_completeness auto
termination
proof (relation "measure (\<lambda>(xs, condition). length xs)")
  show "wf (measure (\<lambda>(xs, condition). length xs))"
    by simp
next
  fix xs :: "'a list" and condition :: "'a list \<Rightarrow> 'a \<Rightarrow> bool"
  assume "list_ex (condition xs) xs"
  then obtain x where "x \<in> set xs" "condition xs x"
    by (auto simp: list_ex_iff)
  then have "length (filter (\<lambda>x. \<not> condition xs x) xs) < length xs"
    by (intro length_filter_less [of x]) auto
  then show "((filter (\<lambda>x. \<not> condition xs x) xs, condition), (xs, condition))
               \<in> measure (\<lambda>(xs, condition). length xs)"
    by simp
qed

declare removeArrayElementWhere.simps [simp del]

definition cleanup :: "LockfileGraph \<Rightarrow> LockfileGraph" where
  "cleanup g = removeArrayElementWhere g isNodeDangling"

section \<open>validate\<close>

text \<open>
  \<^verbatim>\<open>Array.prototype.sort\<close> with a comparator, as a stable insertion sort: \<^verbatim>\<open>x\<close> goes before
  the first \<^verbatim>\<open>y\<close> with \<^verbatim>\<open>cmp(x, y) <= 0\<close>.
\<close>

fun insertByCompare :: "('a \<Rightarrow> 'a \<Rightarrow> int) \<Rightarrow> 'a \<Rightarrow> 'a list \<Rightarrow> 'a list" where
  "insertByCompare cmp x [] = [x]"
| "insertByCompare cmp x (y # ys) =
     (if cmp x y \<le> 0 then x # y # ys else y # insertByCompare cmp x ys)"

definition sortByCompare :: "('a \<Rightarrow> 'a \<Rightarrow> int) \<Rightarrow> 'a list \<Rightarrow> 'a list" where
  "sortByCompare cmp xs = foldr (insertByCompare cmp) xs []"

definition manifestMismatchMessage ::
  "string \<Rightarrow> LockfileGraphNode \<Rightarrow> LockfileGraphNode \<Rightarrow> string \<Rightarrow> string" where
  "manifestMismatchMessage dependencyID dependencyNode node versionConstraint =
     ''Dependency '' @ dependencyID @ ''@'' @ node_version dependencyNode @ '' is NOT GOOD for ''
       @ node_id node @ ''@'' @ node_version node @ '' (requires '' @ versionConstraint
       @ ''), and it is in the manifest''"

definition unsolvableMessage :: "string \<Rightarrow> LockfileGraphNode \<Rightarrow> string" where
  "unsolvableMessage dependencyID node =
     ''No version found for dependency '' @ dependencyID @ '' of '' @ node_id node"

text \<open>
  The \<^verbatim>\<open>while\<close> loop over the candidates. The list argument is the array in the order
  \<^verbatim>\<open>pop()\<close> yields it (last element first). The result carries the graph reached and either
  the error that left the loop or the final value of \<^verbatim>\<open>found\<close>. \<^verbatim>\<open>getItemData\<close> is called
  before the \<^verbatim>\<open>try\<close>, so its error leaves the loop; only an error of \<^verbatim>\<open>add\<close> is caught.
\<close>

fun tryCandidates ::
  "env \<Rightarrow> string \<Rightarrow> LockfileGraph \<Rightarrow> string list \<Rightarrow> LockfileGraph \<times> (error + bool)" where
  "tryCandidates E dependencyID g [] = (g, Inr False)"
| "tryCandidates E dependencyID g (version # rest) =
     (if version = [] then (g, Inr False)
      else
        (case getItemData E dependencyID version of
           Inl e \<Rightarrow> (g, Inl e)
         | Inr itemData \<Rightarrow>
             (case add g itemData of
                (g', None) \<Rightarrow> (g', Inr True)
              | (g', Some e) \<Rightarrow> tryCandidates E dependencyID (remove g' itemData) rest)))"

declare tryCandidates.simps(2) [simp del]

text \<open>The constraints every node of the graph puts on \<^verbatim>\<open>dependencyID\<close>, in node order.\<close>

definition collectConstraints :: "LockfileGraph \<Rightarrow> string \<Rightarrow> string list" where
  "collectConstraints g dependencyID =
     List.map_filter (\<lambda>graphNode. map_of (node_dependencies graphNode) dependencyID) g"

text \<open>The callback \<^verbatim>\<open>validate\<close> runs on one entry of \<^verbatim>\<open>node.dependencies\<close>.\<close>

definition validateDependency ::
  "env \<Rightarrow> LockfileGraphNode \<Rightarrow> LockfileGraph \<Rightarrow> string \<times> string \<Rightarrow> LockfileGraph \<times> error option" where
  "validateDependency E node g dependency =
     (let dependencyID = fst dependency;
          versionConstraint = snd dependency;
          dependencyNode = findNode g dependencyID
      in
        if (case dependencyNode of
              None \<Rightarrow> True
            | Some d \<Rightarrow> \<not> semver_satisfies E (node_version d) versionConstraint)
        then
          (case (case dependencyNode of
                   None \<Rightarrow> Inr g
                 | Some d \<Rightarrow>
                     if isInManifest d
                     then Inl (DependencyManifestMismatchError
                                 (manifestMismatchMessage dependencyID d node versionConstraint))
                     else Inr (remove g d)) of
             Inl e \<Rightarrow> (g, Some e)
           | Inr g1 \<Rightarrow>
               (case findAllVersionsMatchingAll E dependencyID (collectConstraints g1 dependencyID) of
                  Inl e \<Rightarrow> (g1, Some e)
                | Inr matchingDependencyVersions \<Rightarrow>
                    (case tryCandidates E dependencyID g1
                            (rev (sortByCompare (semver_compare E) matchingDependencyVersions)) of
                       (g2, Inl e) \<Rightarrow> (g2, Some e)
                     | (g2, Inr True) \<Rightarrow> (g2, None)
                     | (g2, Inr False) \<Rightarrow>
                         (case dependencyNode of
                            None \<Rightarrow>
                              (g2, Some (UnsolvableDependencyError (unsolvableMessage dependencyID node)))
                          | Some d \<Rightarrow>
                              (case add g2 d of
                                 (g3, Some e) \<Rightarrow> (g3, Some e)
                               | (g3, None) \<Rightarrow>
                                   (g3, Some (UnsolvableDependencyError
                                                (unsolvableMessage dependencyID node))))))))
        else (g, None))"

definition validate :: "env \<Rightarrow> LockfileGraph \<Rightarrow> LockfileGraphNode \<Rightarrow> LockfileGraph \<times> error option" where
  "validate E g node = forEachAsync (validateDependency E node) g (node_dependencies node)"

text \<open>
  Modelled from the spec: the iteration of \<^verbatim>\<open>forEachAsync\<close> (utilities module, not among the
  sources) when \<^verbatim>\<open>validateAll\<close> hands it \<^verbatim>\<open>this.nodes\<close> itself, the array \<^verbatim>\<open>validate\<close> changes
  while the iteration runs. The spec: "invoke \<^verbatim>\<open>validate\<close> on every node currently in the
  graph". The iteration is by index over the array as it is at each step, so nodes
  appended on the way are validated too. It need not end (a catalog may keep yielding new
  ids), so it carries fuel: \<open>None\<close> when the fuel runs out, else the graph reached and the
  error thrown, if any.
\<close>

fun validateAllFrom ::
  "env \<Rightarrow> nat \<Rightarrow> nat \<Rightarrow> LockfileGraph \<Rightarrow> (LockfileGraph \<times> error option) option" where
  "validateAllFrom E 0 i g = None"
| "validateAllFrom E (Suc fuel) i g =
     (if i < length g then
        (case validate E g (g ! i) of
           (g', Some e) \<Rightarrow> Some (g', Some e)
         | (g', None) \<Rightarrow> validateAllFrom E fuel (Suc i) g')
      else Some (g, None))"

definition validateAll :: "env \<Rightarrow> nat \<Rightarrow> LockfileGraph \<Rightarrow> (LockfileGraph \<times> error option) option" where
  "validateAll E fuel g = validateAllFrom E fuel 0 g"

section \<open>lockfileDifference\<close>

text \<open>
  The test \<^verbatim>\<open>!(id in other) || oldLockfile[id].version !== newLockfile[id].version\<close>, for an
  \<^verbatim>\<open>id\<close> that is a key of the lockfile being walked (so the lookup in that one succeeds).
\<close>

definition versionChanged :: "Lockfile \<Rightarrow> Lockfile \<Rightarrow> string \<Rightarrow> bool" where
  "versionChanged oldLockfile newLockfile ident =
     (case (map_of oldLockfile ident, map_of newLockfile ident) of
        (Some oldItem, Some newItem) \<Rightarrow> item_version oldItem \<noteq> item_version newItem
      | _ \<Rightarrow> True)"

definition lockfileDifference :: "Lockfile \<Rightarrow> Lockfile \<Rightarrow> LockfileDiff" where
  "lockfileDifference oldLockfile newLockfile =
     \<lparr> install =
         fold (\<lambda>ident acc.
                 if versionChanged oldLockfile newLockfile ident
                 then (case map_of newLockfile ident of
                         None \<Rightarrow> acc
                       | Some newItem \<Rightarrow> AList.update ident (item_version newItem) acc)
                 else acc)
              (map fst newLockfile) [],
       uninstall =
         fold (\<lambda>ident acc.
                 if versionChanged oldLockfile newLockfile ident then acc @ [ident] else acc)
              (map fst oldLockfile) [] \<rparr>"

section \<open>A concrete catalog for the worked examples\<close>

text \<open>
  The examples below run the resolver against a small catalog. Its \<^verbatim>\<open>semver\<close> functions cover
  the fragment the examples use: versions with one-digit components, compared character by
  character; a constraint is either \<^verbatim>\<open>>=v\<close> or an exact version; coercion appends \<^verbatim>\<open>.0.0\<close> to
  a bare number.
\<close>

fun compareCodes :: "nat list \<Rightarrow> nat list \<Rightarrow> int" where
  "compareCodes [] [] = 0"
| "compareCodes [] (y # ys) = - 1"
| "compareCodes (x # xs) [] = 1"
| "compareCodes (x # xs) (y # ys) =
     (if x < y then - 1 else if y < x then 1 else compareCodes xs ys)"

definition scenarioCompare :: "string \<Rightarrow> string \<Rightarrow> int" where
  "scenarioCompare a b = compareCodes (map of_char a) (map of_char b)"

definition scenarioSatisfies :: "string \<Rightarrow> string \<Rightarrow> bool" where
  "scenarioSatisfies v c =
     (if take 2 c = ''>='' then 0 \<le> scenarioCompare v (drop 2 c) else v = c)"

definition scenarioCoerce :: "string \<Rightarrow> string option" where
  "scenarioCoerce s =
     (if s = [] then None else if CHR ''.'' \<in> set s then Some s else Some (s @ ''.0.0''))"

text \<open>
  The mod cache holds \<^verbatim>\<open>A@2.0.0\<close> (which needs \<^verbatim>\<open>X\<close>), \<^verbatim>\<open>A@1.0.0\<close> (which declares a loader
  version) and \<^verbatim>\<open>B@1.0.0\<close>; anything else cannot be downloaded.
\<close>

definition scenarioCache :: "string \<Rightarrow> string \<Rightarrow> error + ModData" where
  "scenarioCache ident version =
     (if ident = ''A'' \<and> version = ''2.0.0'' then
        Inr \<lparr> mod_id = ''A'', mod_version = ''2.0.0'',
              mod_dependencies = Some [(''X'', ''1.0.0'')], sml_version = None \<rparr>
      else if ident = ''A'' \<and> version = ''1.0.0'' then
        Inr \<lparr> mod_id = ''A'', mod_version = ''1.0.0'',
              mod_dependencies = None, sml_version = Some ''1.0.1'' \<rparr>
      else if ident = ''B'' \<and> version = ''1.0.0'' then
        Inr \<lparr> mod_id = ''B'', mod_version = ''1.0.0'',
              mod_dependencies = None, sml_version = None \<rparr>
      else Inl (ModNotFoundError (ident @ ''@'' @ version @ '' not found'')))"

text \<open>
  The catalog lists \<^verbatim>\<open>A\<close> at 2.0.0 and 1.0.0, \<^verbatim>\<open>B\<close> at 1.0.0 and 2.0.0, \<^verbatim>\<open>C\<close> at 2.0.0, and
  \<^verbatim>\<open>X\<close> with no version at all.
\<close>

definition scenarioCatalog :: "string \<Rightarrow> error + FicsitAppVersion list" where
  "scenarioCatalog modID =
     (if modID = ''A'' then
        Inr [\<lparr> published_mod_id = ''A'', published_version = ''2.0.0'' \<rparr>,
             \<lparr> published_mod_id = ''A'', published_version = ''1.0.0'' \<rparr>]
      else if modID = ''B'' then
        Inr [\<lparr> published_mod_id = ''B'', published_version = ''1.0.0'' \<rparr>,
             \<lparr> published_mod_id = ''B'', published_version = ''2.0.0'' \<rparr>]
      else if modID = ''C'' then
        Inr [\<lparr> published_mod_id = ''C'', published_version = ''2.0.0'' \<rparr>]
      else if modID = ''X'' then Inr []
      else Inl (ExternalError ''no such mod''))"

definition scenarioReleases :: "FicsitAppSMLVersion list" where
  "scenarioReleases =
     [\<lparr> sml_release_version = ''1.0.0'', satisfactory_version = 109000 \<rparr>,
      \<lparr> sml_release_version = ''1.0.1'', satisfactory_version = 109000 \<rparr>,
      \<lparr> sml_release_version = ''2.0.0'', satisfactory_version = 109000 \<rparr>]"

definition scenarioEnv :: env where
  "scenarioEnv =
     \<lparr> semver_satisfies = scenarioSatisfies,
       semver_compare = scenarioCompare,
       semver_valid_coerce = scenarioCoerce,
       getAvailableSMLVersions = Inr scenarioReleases,
       getModVersionList = scenarioCatalog,
       getCachedMod = scenarioCache \<rparr>"

definition nodeN :: LockfileGraphNode where
  "nodeN = \<lparr> node_id = ''N'', node_version = ''1.0.0'',
             node_dependencies = [(''A'', ''>=1.0.0'')], isInManifest = True \<rparr>"

definition nodeA2 :: LockfileGraphNode where
  "nodeA2 = \<lparr> node_id = ''A'', node_version = ''2.0.0'',
              node_dependencies = [(''X'', ''1.0.0'')], isInManifest = False \<rparr>"

definition nodeA1 :: LockfileGraphNode where
  "nodeA1 = \<lparr> node_id = ''A'', node_version = ''1.0.0'',
              node_dependencies = [(''SML'', ''>=1.0.1'')], isInManifest = False \<rparr>"

definition dependerOnB :: LockfileGraphNode where
  "dependerOnB = \<lparr> node_id = ''NB'', node_version = ''1.0.0'',
                   node_dependencies = [(''B'', ''>=1.0.0'')], isInManifest = True \<rparr>"

definition staleB :: LockfileGraphNode where
  "staleB = \<lparr> node_id = ''B'', node_version = ''0.9.0'',
              node_dependencies = [], isInManifest = False \<rparr>"

definition nodeB1 :: LockfileGraphNode where
  "nodeB1 = \<lparr> node_id = ''B'', node_version = ''1.0.0'',
              node_dependencies = [], isInManifest = False \<rparr>"

definition dependerOnC :: LockfileGraphNode where
  "dependerOnC = \<lparr> node_id = ''NC'', node_version = ''1.0.0'',
                   node_dependencies = [(''C'', ''>=1.0.0'')], isInManifest = True \<rparr>"

definition staleC :: LockfileGraphNode where
  "staleC = \<lparr> node_id = ''C'', node_version = ''0.9.0'',
              node_dependencies = [], isInManifest = False \<rparr>"

definition dependerOnX :: LockfileGraphNode where
  "dependerOnX = \<lparr> node_id = ''NX'', node_version = ''1.0.0'',
                   node_dependencies = [(''X'', ''1.0.0'')], isInManifest = True \<rparr>"

definition staleX :: LockfileGraphNode where
  "staleX = \<lparr> node_id = ''X'', node_version = ''0.9.0'',
              node_dependencies = [], isInManifest = False \<rparr>"

definition pinnedP :: LockfileGraphNode where
  "pinnedP = \<lparr> node_id = ''P'', node_version = ''1.4.1'',
               node_dependencies = [], isInManifest = True \<rparr>"

definition dependerOnXP :: LockfileGraphNode where
  "dependerOnXP = \<lparr> node_id = ''NXP'', node_version = ''1.0.0'',
                    node_dependencies = [(''X'', ''1.0.0''), (''P'', ''2.0.0'')],
                    isInManifest = False \<rparr>"

definition dependerOnAP :: LockfileGraphNode where
  "dependerOnAP = \<lparr> node_id = ''NAP'', node_version = ''1.0.0'',
                    node_dependencies = [(''A'', ''>=1.0.0''), (''P'', ''2.0.0'')],
                    isInManifest = False \<rparr>"

text \<open>
  A second catalog, on top of the first: \<^verbatim>\<open>F\<close> and \<^verbatim>\<open>G\<close> are listed at 1.0.0, 2.0.0 and 3.0.0.
  \<^verbatim>\<open>F@3.0.0\<close> can be fetched but needs \<^verbatim>\<open>X\<close>, which has no version; \<^verbatim>\<open>G@3.0.0\<close> cannot be fetched.
  The versions 1.0.0 and 2.0.0 of both have no dependencies.
\<close>

definition tieredCatalog :: "string \<Rightarrow> error + FicsitAppVersion list" where
  "tieredCatalog modID =
     (if modID = ''F'' \<or> modID = ''G'' then
        Inr [\<lparr> published_mod_id = modID, published_version = ''1.0.0'' \<rparr>,
             \<lparr> published_mod_id = modID, published_version = ''2.0.0'' \<rparr>,
             \<lparr> published_mod_id = modID, published_version = ''3.0.0'' \<rparr>]
      else scenarioCatalog modID)"

definition tieredCache :: "string \<Rightarrow> string \<Rightarrow> error + ModData" where
  "tieredCache ident version =
     (if ident = ''F'' \<and> version = ''3.0.0'' then
        Inr \<lparr> mod_id = ''F'', mod_version = ''3.0.0'',
              mod_dependencies = Some [(''X'', ''1.0.0'')], sml_version = None \<rparr>
      else if (ident = ''F'' \<or> ident = ''G'') \<and> (version = ''1.0.0'' \<or> version = ''2.0.0'') then
        Inr \<lparr> mod_id = ident, mod_version = version,
              mod_dependencies = None, sml_version = None \<rparr>
      else scenarioCache ident version)"

definition tieredEnv :: env where
  "tieredEnv = scenarioEnv \<lparr> getModVersionList := tieredCatalog, getCachedMod := tieredCache \<rparr>"

definition dependerOnF :: LockfileGraphNode where
  "dependerOnF = \<lparr> node_id = ''NF'', node_version = ''1.0.0'',
                   node_dependencies = [(''F'', ''>=1.0.0'')], isInManifest = True \<rparr>"

definition nodeF1 :: LockfileGraphNode where
  "nodeF1 = \<lparr> node_id = ''F'', node_version = ''1.0.0'',
              node_dependencies = [], isInManifest = False \<rparr>"

definition nodeF2 :: LockfileGraphNode where
  "nodeF2 = \<lparr> node_id = ''F'', node_version = ''2.0.0'',
              node_dependencies = [], isInManifest = False \<rparr>"

definition nodeF3 :: LockfileGraphNode where
  "nodeF3 = \<lparr> node_id = ''F'', node_version = ''3.0.0'',
              node_dependencies = [(''X'', ''1.0.0'')], isInManifest = False \<rparr>"

definition dependerOnG :: LockfileGraphNode where
  "dependerOnG = \<lparr> node_id = ''NG'', node_version = ''1.0.0'',
                   node_dependencies = [(''G'', ''>=1.0.0'')], isInManifest = True \<rparr>"

definition nodeG1 :: LockfileGraphNode where
  "nodeG1 = \<lparr> node_id = ''G'', node_version = ''1.0.0'',
              node_dependencies = [], isInManifest = False \<rparr>"

definition nodeG2 :: LockfileGraphNode where
  "nodeG2 = \<lparr> node_id = ''G'', node_version = ''2.0.0'',
              node_dependencies = [], isInManifest = False \<rparr>"

text \<open>
  A graph for \<^verbatim>\<open>cleanup\<close>: \<^verbatim>\<open>U\<close> is dangling and is the only dependant of \<^verbatim>\<open>V\<close>; \<^verbatim>\<open>M\<close> is in the
  manifest and depends on \<^verbatim>\<open>W\<close>.
\<close>

definition leafV :: LockfileGraphNode where
  "leafV = \<lparr> node_id = ''V'', node_version = ''1.0.0'',
             node_dependencies = [], isInManifest = False \<rparr>"

definition danglingU :: LockfileGraphNode where
  "danglingU = \<lparr> node_id = ''U'', node_version = ''1.0.0'',
                 node_dependencies = [(''V'', ''1.0.0'')], isInManifest = False \<rparr>"

definition manifestM :: LockfileGraphNode where
  "manifestM = \<lparr> node_id = ''M'', node_version = ''1.0.0'',
                 node_dependencies = [(''W'', ''1.0.0'')], isInManifest = True \<rparr>"

definition neededW :: LockfileGraphNode where
  "neededW = \<lparr> node_id = ''W'', node_version = ''1.0.0'',
               node_dependencies = [], isInManifest = False \<rparr>"

text \<open>The two lockfiles of the spec's diff scenario.\<close>

definition oldLock :: Lockfile where
  "oldLock = [(''A'', \<lparr> item_version = ''1.0'', item_dependencies = [] \<rparr>),
              (''B'', \<lparr> item_version = ''1.0'', item_dependencies = [] \<rparr>)]"

definition newLock :: Lockfile where
  "newLock = [(''A'', \<lparr> item_version = ''1.0'', item_dependencies = [] \<rparr>),
              (''B'', \<lparr> item_version = ''2.0'', item_dependencies = [] \<rparr>),
              (''C'', \<lparr> item_version = ''1.0'', item_dependencies = [] \<rparr>)]"

section \<open>Basic facts about the graph operations\<close>

lemma add_eq:
  "add g node = (if list_ex (\<lambda>graphNode. node_id graphNode = node_id node) g then g else g @ [node], None)"
  by (simp add: add_def push_def)

lemma forEachAsync_append:
  "forEachAsync f s (xs @ ys) =
     (case forEachAsync f s xs of
        (s', Some e) \<Rightarrow> (s', Some e)
      | (s', None) \<Rightarrow> forEachAsync f s' ys)"
  by (induction xs arbitrary: s) (auto split: prod.splits option.splits)

lemma forEachAsync_invariant:
  assumes "P s" and "\<And>s x. P s \<Longrightarrow> P (fst (f s x))"
  shows "P (fst (forEachAsync f s xs))"
  using assms(1)
proof (induction xs arbitrary: s)
  case Nil
  then show ?case by simp
next
  case (Cons x xs)
  from Cons.prems have step: "P (fst (f s x))" by (rule assms(2))
  show ?case
  proof (cases "f s x")
    case (Pair s' r)
    with step have "P s'" by simp
    then show ?thesis
      using Pair Cons.IH [of s'] by (cases r) simp_all
  qed
qed

lemma tryCandidates_Cons:
  "tryCandidates E dependencyID g (version # rest) =
     (if version = [] then (g, Inr False)
      else
        (case getItemData E dependencyID version of
           Inl e \<Rightarrow> (g, Inl e)
         | Inr itemData \<Rightarrow>
            (if list_ex (\<lambda>graphNode. node_id graphNode = node_id itemData) g then g
             else g @ [itemData], Inr True)))"
  by (simp add: tryCandidates.simps add_eq split: sum.splits)

lemma tryCandidates_keeps:
  "x \<in> set g \<Longrightarrow> x \<in> set (fst (tryCandidates E dependencyID g versions))"
  by (cases versions) (auto simp: tryCandidates_Cons split: sum.splits)

lemma find_remove1:
  "find P g = Some D \<Longrightarrow> x \<noteq> D \<Longrightarrow> find P (remove1 x g) = Some D"
  by (induction g) (auto split: if_splits)

lemma find_append_Some:
  "find P g = Some D \<Longrightarrow> find P (g @ ys) = Some D"
  by (induction g) (auto split: if_splits)

lemma find_Some_mem: "find P g = Some D \<Longrightarrow> D \<in> set g \<and> P D"
  by (induction g) (auto split: if_splits)

lemma tryCandidates_findNode:
  "findNode g ident = Some D \<Longrightarrow> findNode (fst (tryCandidates E dependencyID g versions)) ident = Some D"
  by (cases versions) (auto simp: tryCandidates_Cons findNode_def find_append_Some split: sum.splits)

subsection \<open>The callback on one dependency, case by case\<close>

lemma validateDependency_unfold:
  assumes "findNode g depId = stale"
    and "case stale of None \<Rightarrow> True
         | Some d \<Rightarrow> \<not> semver_satisfies E (node_version d) c \<and> \<not> isInManifest d"
  shows "validateDependency E N g (depId, c) =
     (let g1 = (case stale of None \<Rightarrow> g | Some d \<Rightarrow> remove g d) in
      case findAllVersionsMatchingAll E depId (collectConstraints g1 depId) of
        Inl e \<Rightarrow> (g1, Some e)
      | Inr cands \<Rightarrow>
          (case tryCandidates E depId g1 (rev (sortByCompare (semver_compare E) cands)) of
             (g2, Inl e) \<Rightarrow> (g2, Some e)
           | (g2, Inr True) \<Rightarrow> (g2, None)
           | (g2, Inr False) \<Rightarrow>
               (case stale of
                  None \<Rightarrow> (g2, Some (UnsolvableDependencyError (unsolvableMessage depId N)))
                | Some d \<Rightarrow>
                    (fst (add g2 d), Some (UnsolvableDependencyError (unsolvableMessage depId N))))))"
proof (cases stale)
  case None
  with assms have "findNode g depId = None" by simp
  then show ?thesis
    unfolding None
    by (simp add: validateDependency_def split: sum.splits prod.splits bool.splits)
next
  case (Some d)
  with assms have "findNode g depId = Some d"
    "\<not> semver_satisfies E (node_version d) c" "\<not> isInManifest d" by simp_all
  then show ?thesis
    unfolding Some
    by (simp add: validateDependency_def add_eq split: sum.splits prod.splits bool.splits)
qed

lemma validateDependency_catalog_error:
  assumes "findNode g depId = stale"
    and "case stale of None \<Rightarrow> True
         | Some d \<Rightarrow> \<not> semver_satisfies E (node_version d) c \<and> \<not> isInManifest d"
    and "g1 = (case stale of None \<Rightarrow> g | Some d \<Rightarrow> remove g d)"
    and "findAllVersionsMatchingAll E depId (collectConstraints g1 depId) = Inl e"
  shows "validateDependency E N g (depId, c) = (g1, Some e)"
  using assms(3,4) by (simp add: validateDependency_unfold [OF assms(1,2)])

lemma validateDependency_resolve:
  assumes "findNode g depId = stale"
    and "case stale of None \<Rightarrow> True
         | Some d \<Rightarrow> \<not> semver_satisfies E (node_version d) c \<and> \<not> isInManifest d"
    and "g1 = (case stale of None \<Rightarrow> g | Some d \<Rightarrow> remove g d)"
    and "findAllVersionsMatchingAll E depId (collectConstraints g1 depId) = Inr cands"
    and "tryCandidates E depId g1 (rev (sortByCompare (semver_compare E) cands)) = (g2, r)"
  shows "validateDependency E N g (depId, c) =
     (case r of
        Inl e \<Rightarrow> (g2, Some e)
      | Inr found \<Rightarrow>
          if found then (g2, None)
          else (case stale of None \<Rightarrow> g2 | Some d \<Rightarrow> fst (add g2 d),
                Some (UnsolvableDependencyError (unsolvableMessage depId N))))"
  using assms(3,4,5)
  by (cases r; cases stale)
     (simp_all add: validateDependency_unfold [OF assms(1,2)])

lemma validateDependency_mismatch:
  assumes "findNode g depId = Some D" "isInManifest D"
    "\<not> semver_satisfies E (node_version D) c"
  shows "validateDependency E N g (depId, c) =
           (g, Some (DependencyManifestMismatchError (manifestMismatchMessage depId D N c)))"
  using assms by (simp add: validateDependency_def)

lemma validateDependency_good:
  assumes "findNode g depId = Some D" "semver_satisfies E (node_version D) c"
  shows "validateDependency E N g (depId, c) = (g, None)"
  using assms by (simp add: validateDependency_def)

lemma validate_split:
  assumes "node_dependencies N = pre @ dep # post"
    and "forEachAsync (validateDependency E N) g0 pre = (g, None)"
  shows "validate E g0 N =
     (case validateDependency E N g dep of
        (g', Some e) \<Rightarrow> (g', Some e)
      | (g', None) \<Rightarrow> forEachAsync (validateDependency E N) g' post)"
  using assms by (simp add: validate_def forEachAsync_append)

subsection \<open>Sorting the candidates\<close>

lemma insertByCompare_not_Nil [simp]: "insertByCompare cmp x ys \<noteq> []"
  by (cases ys) simp_all

lemma set_insertByCompare [simp]: "set (insertByCompare cmp x ys) = insert x (set ys)"
  by (induction ys) auto

lemma set_sortByCompare [simp]: "set (sortByCompare cmp xs) = set xs"
  by (induction xs) (simp_all add: sortByCompare_def)

lemma sortByCompare_Nil_iff [simp]: "sortByCompare cmp xs = [] \<longleftrightarrow> xs = []"
  by (cases xs) (simp_all add: sortByCompare_def)

lemma sortByCompare_Cons:
  "sortByCompare cmp (x # xs) = insertByCompare cmp x (sortByCompare cmp xs)"
  by (simp add: sortByCompare_def)

lemma last_insert_smaller:
  "ys \<noteq> [] \<Longrightarrow> cmp x (last ys) \<le> 0 \<Longrightarrow> last (insertByCompare cmp x ys) = last ys"
  by (induction ys) auto

lemma last_insert_greatest:
  assumes "\<forall>y \<in> set ys. y \<noteq> x \<longrightarrow> 0 < cmp x y"
    and "ys = [] \<or> last ys = x \<or> x \<notin> set ys"
  shows "last (insertByCompare cmp x ys) = x"
  using assms
proof (induction ys)
  case Nil
  then show ?case by simp
next
  case (Cons y ys)
  show ?case
  proof (cases "cmp x y \<le> 0")
    case True
    with Cons.prems(1) have "y = x" by force
    with Cons.prems(2) True show ?thesis by (auto split: if_splits)
  next
    case False
    have "ys = [] \<or> last ys = x \<or> x \<notin> set ys"
      using Cons.prems(2) by (auto split: if_splits)
    with Cons.IH Cons.prems(1) have "last (insertByCompare cmp x ys) = x" by simp
    with False show ?thesis by simp
  qed
qed

lemma last_sortByCompare:
  assumes "v2 \<in> set xs"
    and "\<forall>v \<in> set xs. v \<noteq> v2 \<longrightarrow> cmp v v2 \<le> 0 \<and> 0 < cmp v2 v"
  shows "last (sortByCompare cmp xs) = v2"
  using assms
proof (induction xs)
  case Nil
  then show ?case by simp
next
  case (Cons x xs)
  show ?case
  proof (cases "x = v2")
    case True
    have "last (insertByCompare cmp v2 (sortByCompare cmp xs)) = v2"
    proof (rule last_insert_greatest)
      show "\<forall>y\<in>set (sortByCompare cmp xs). y \<noteq> v2 \<longrightarrow> 0 < cmp v2 y"
        using Cons.prems(2) by simp
      show "sortByCompare cmp xs = [] \<or> last (sortByCompare cmp xs) = v2
              \<or> v2 \<notin> set (sortByCompare cmp xs)"
        using Cons.IH Cons.prems(2) by (cases "v2 \<in> set xs") simp_all
    qed
    with True show ?thesis by (simp add: sortByCompare_Cons)
  next
    case False
    with Cons.prems have mem: "v2 \<in> set xs" by simp
    with Cons.IH Cons.prems(2) have l: "last (sortByCompare cmp xs) = v2" by simp
    from mem have ne: "sortByCompare cmp xs \<noteq> []" by auto
    from False Cons.prems(2) have "cmp x v2 \<le> 0" by simp
    with l ne show ?thesis
      by (simp add: sortByCompare_Cons last_insert_smaller)
  qed
qed

lemma rev_sorted_pops_last:
  "xs \<noteq> [] \<Longrightarrow> rev xs = last xs # rev (butlast xs)"
  by (induction xs rule: rev_induct) simp_all

lemma sorted_insertByCompare:
  assumes total: "\<forall>a \<in> S. \<forall>b \<in> S. cmp a b \<le> 0 \<or> cmp b a \<le> 0"
    and trans: "\<forall>a \<in> S. \<forall>b \<in> S. \<forall>c \<in> S. cmp a b \<le> 0 \<longrightarrow> cmp b c \<le> 0 \<longrightarrow> cmp a c \<le> 0"
    and "x \<in> S" and "set ys \<subseteq> S"
    and "sorted_wrt (\<lambda>a b. cmp a b \<le> 0) ys"
  shows "sorted_wrt (\<lambda>a b. cmp a b \<le> 0) (insertByCompare cmp x ys)"
  using assms(3-)
proof (induction ys)
  case Nil
  then show ?case by simp
next
  case (Cons y ys)
  show ?case
  proof (cases "cmp x y \<le> 0")
    case True
    have "\<forall>z \<in> set ys. cmp x z \<le> 0"
    proof
      fix z assume z: "z \<in> set ys"
      with Cons.prems have "cmp y z \<le> 0" by simp
      with True trans Cons.prems z show "cmp x z \<le> 0"
        by (meson list.set_intros subsetD)
    qed
    with True Cons.prems show ?thesis by simp
  next
    case False
    with total Cons.prems have "cmp y x \<le> 0"
      by (meson list.set_intros(1) subsetD)
    with False Cons show ?thesis by simp
  qed
qed

lemma sorted_sortByCompare:
  assumes "\<forall>a \<in> set xs. \<forall>b \<in> set xs. cmp a b \<le> 0 \<or> cmp b a \<le> 0"
    and "\<forall>a \<in> set xs. \<forall>b \<in> set xs. \<forall>c \<in> set xs. cmp a b \<le> 0 \<longrightarrow> cmp b c \<le> 0 \<longrightarrow> cmp a c \<le> 0"
  shows "sorted_wrt (\<lambda>a b. cmp a b \<le> 0) (sortByCompare cmp xs)"
proof -
  have "set ys \<subseteq> set xs \<Longrightarrow> sorted_wrt (\<lambda>a b. cmp a b \<le> 0) (sortByCompare cmp ys)" for ys
  proof (induction ys)
    case Nil
    then show ?case by (simp add: sortByCompare_def)
  next
    case (Cons y ys)
    then have "sorted_wrt (\<lambda>a b. cmp a b \<le> 0) (sortByCompare cmp ys)" by simp
    moreover from Cons.prems have "y \<in> set xs" "set (sortByCompare cmp ys) \<subseteq> set xs" by simp_all
    ultimately show ?case
      unfolding sortByCompare_Cons
      by (intro sorted_insertByCompare [OF assms])
  qed
  then show ?thesis by simp
qed

subsection \<open>The candidates satisfy the collected constraints\<close>

lemma findAllVersionsMatchingAll_satisfy:
  assumes "findAllVersionsMatchingAll E modID versionConstraints = Inr cands"
    and "v \<in> set cands"
  shows "versionSatisfiesAll E v versionConstraints"
  using assms
  by (auto simp: findAllVersionsMatchingAll_def split: if_splits sum.splits)

lemma collectConstraints_member:
  assumes "graphNode \<in> set g"
    and "map_of (node_dependencies graphNode) dependencyID = Some versionConstraint"
  shows "versionConstraint \<in> set (collectConstraints g dependencyID)"
  using assms
  by (force simp: collectConstraints_def List.map_filter_def)

lemma candidate_satisfies_collected:
  assumes "findAllVersionsMatchingAll E depId (collectConstraints g depId) = Inr cands"
    and "v \<in> set cands"
    and "graphNode \<in> set g"
    and "map_of (node_dependencies graphNode) depId = Some versionConstraint"
  shows "semver_satisfies E v versionConstraint"
proof -
  have "versionSatisfiesAll E v (collectConstraints g depId)"
    using assms(1,2) by (rule findAllVersionsMatchingAll_satisfy)
  moreover have "versionConstraint \<in> set (collectConstraints g depId)"
    using assms(3,4) by (rule collectConstraints_member)
  ultimately show ?thesis
    by (simp add: versionSatisfiesAll_def list_all_iff)
qed

subsection \<open>Manifest nodes stay where they are\<close>

lemma validateDependency_keeps_manifest:
  assumes "M \<in> set g" "isInManifest M"
  shows "M \<in> set (fst (validateDependency E N g dep))"
proof -
  obtain depId c where dep: "dep = (depId, c)" by (cases dep)
  have resolved: "M \<in> set (fst (validateDependency E N g (depId, c)))"
    if stale: "findNode g depId = stale"
      and fresh: "case stale of None \<Rightarrow> True
         | Some d \<Rightarrow> \<not> semver_satisfies E (node_version d) c \<and> \<not> isInManifest d"
    for stale
  proof -
    define g1 where "g1 = (case stale of None \<Rightarrow> g | Some d \<Rightarrow> remove g d)"
    have M1: "M \<in> set g1"
    proof (cases stale)
      case None
      with assms show ?thesis by (simp add: g1_def)
    next
      case (Some d)
      with fresh assms have "M \<noteq> d" by auto
      with assms Some show ?thesis
        by (simp add: g1_def remove_def removeArrayElement_def)
    qed
    show ?thesis
    proof (cases "findAllVersionsMatchingAll E depId (collectConstraints g1 depId)")
      case (Inl e)
      with M1 show ?thesis
        by (simp add: validateDependency_catalog_error [OF stale fresh g1_def])
    next
      case (Inr cands)
      obtain g2 r where t: "tryCandidates E depId g1 (rev (sortByCompare (semver_compare E) cands)) = (g2, r)"
        by (cases "tryCandidates E depId g1 (rev (sortByCompare (semver_compare E) cands))")
      have M2: "M \<in> set g2"
        using tryCandidates_keeps [OF M1, of E depId "rev (sortByCompare (semver_compare E) cands)"] t
        by simp
      then have M3: "\<And>d. M \<in> set (fst (add g2 d))"
        by (simp add: add_eq)
      show ?thesis
        using M2 M3
        by (simp add: validateDependency_resolve [OF stale fresh g1_def Inr t]
              split: sum.splits option.splits)
    qed
  qed
  show ?thesis
  proof (cases "findNode g depId")
    case None
    then show ?thesis
      unfolding dep by (rule resolved) simp
  next
    case (Some d)
    show ?thesis
    proof (cases "semver_satisfies E (node_version d) c")
      case True
      with Some assms show ?thesis
        by (simp add: dep validateDependency_good)
    next
      case unsat: False
      show ?thesis
      proof (cases "isInManifest d")
        case True
        with Some unsat assms show ?thesis
          by (simp add: dep validateDependency_mismatch)
      next
        case False
        with Some unsat show ?thesis
          unfolding dep by (intro resolved [of "Some d"]) simp_all
      qed
    qed
  qed
qed

lemma validate_keeps_manifest:
  assumes "M \<in> set g" "isInManifest M"
  shows "M \<in> set (fst (validate E g N))"
  unfolding validate_def
  by (rule forEachAsync_invariant [where P = "\<lambda>g. M \<in> set g"])
     (simp_all add: assms validateDependency_keeps_manifest)

lemma validateAllFrom_keeps_manifest:
  assumes "M \<in> set g" "isInManifest M" "validateAllFrom E fuel i g = Some (g', r)"
  shows "M \<in> set g'"
  using assms
proof (induction fuel arbitrary: i g)
  case 0
  then show ?case by simp
next
  case (Suc fuel)
  show ?case
  proof (cases "i < length g")
    case False
    with Suc.prems show ?thesis by simp
  next
    case True
    obtain g1 r1 where v: "validate E g (g ! i) = (g1, r1)" by (cases "validate E g (g ! i)")
    have M1: "M \<in> set g1"
      using validate_keeps_manifest [OF Suc.prems(1,2), of E "g ! i"] v by simp
    show ?thesis
    proof (cases r1)
      case None
      with Suc.prems(3) True v have "validateAllFrom E fuel (Suc i) g1 = Some (g', r)" by simp
      with Suc.IH [OF M1 Suc.prems(2)] show ?thesis .
    next
      case (Some e)
      with Suc.prems(3) True v M1 show ?thesis by simp
    qed
  qed
qed

lemma validateDependency_keeps_found_manifest:
  assumes "findNode g ident = Some D" "isInManifest D"
  shows "findNode (fst (validateDependency E N g dep)) ident = Some D"
proof -
  obtain depId c where dep: "dep = (depId, c)" by (cases dep)
  have resolved: "findNode (fst (validateDependency E N g (depId, c))) ident = Some D"
    if stale: "findNode g depId = stale"
      and fresh: "case stale of None \<Rightarrow> True
         | Some d \<Rightarrow> \<not> semver_satisfies E (node_version d) c \<and> \<not> isInManifest d"
    for stale
  proof -
    define g1 where "g1 = (case stale of None \<Rightarrow> g | Some d \<Rightarrow> remove g d)"
    have F1: "findNode g1 ident = Some D"
    proof (cases stale)
      case None
      with assms show ?thesis by (simp add: g1_def)
    next
      case (Some d)
      with fresh assms have "d \<noteq> D" by auto
      with assms Some show ?thesis
        by (simp add: g1_def remove_def removeArrayElement_def findNode_def find_remove1)
    qed
    show ?thesis
    proof (cases "findAllVersionsMatchingAll E depId (collectConstraints g1 depId)")
      case (Inl e)
      with F1 show ?thesis
        by (simp add: validateDependency_catalog_error [OF stale fresh g1_def])
    next
      case (Inr cands)
      obtain g2 r where t: "tryCandidates E depId g1 (rev (sortByCompare (semver_compare E) cands)) = (g2, r)"
        by (cases "tryCandidates E depId g1 (rev (sortByCompare (semver_compare E) cands))")
      have F2: "findNode g2 ident = Some D"
        using tryCandidates_findNode [OF F1, of E depId "rev (sortByCompare (semver_compare E) cands)"] t
        by simp
      then have F3: "\<And>d. findNode (fst (add g2 d)) ident = Some D"
        by (simp add: add_eq findNode_def find_append_Some)
      show ?thesis
        using F2 F3
        by (simp add: validateDependency_resolve [OF stale fresh g1_def Inr t]
              split: sum.splits option.splits)
    qed
  qed
  show ?thesis
  proof (cases "findNode g depId")
    case None
    then show ?thesis
      unfolding dep by (rule resolved) simp
  next
    case (Some d)
    show ?thesis
    proof (cases "semver_satisfies E (node_version d) c")
      case True
      with Some assms show ?thesis
        by (simp add: dep validateDependency_good)
    next
      case unsat: False
      show ?thesis
      proof (cases "isInManifest d")
        case True
        with Some unsat assms show ?thesis
          by (simp add: dep validateDependency_mismatch)
      next
        case False
        with Some unsat show ?thesis
          unfolding dep by (intro resolved [of "Some d"]) simp_all
      qed
    qed
  qed
qed

lemma remove_unique_id:
  assumes "distinct (map node_id g)" and "D \<in> set g"
  shows "\<not> list_ex (\<lambda>graphNode. node_id graphNode = node_id D) (remove g D)"
proof -
  from assms(1) have "inj_on node_id (set g)" and "distinct g"
    by (simp_all add: distinct_map)
  with assms(2) show ?thesis
    by (auto simp: remove_def removeArrayElement_def list_ex_iff dest: inj_onD)
qed

subsection \<open>Cleanup and the lockfile difference\<close>

lemma removeArrayElementWhere_none_left:
  "\<not> list_ex (condition (removeArrayElementWhere xs condition)) (removeArrayElementWhere xs condition)"
proof (induction xs condition rule: removeArrayElementWhere.induct)
  case (1 xs condition)
  show ?case
  proof (cases "list_ex (condition xs) xs")
    case True
    with 1 show ?thesis
      by (subst (1 2) removeArrayElementWhere.simps) simp
  next
    case False
    then show ?thesis
      by (subst (1 2) removeArrayElementWhere.simps) simp
  qed
qed

lemma uninstall_fold:
  "fold (\<lambda>ident acc. if P ident then acc @ [ident] else acc) xs acc0 = acc0 @ filter P xs"
  by (induction xs arbitrary: acc0) auto

lemma install_fold:
  "map_of (fold (\<lambda>ident acc. if P ident then (case m ident of None \<Rightarrow> acc | Some item \<Rightarrow> AList.update ident (f item) acc) else acc) xs acc0) i
   = (if i \<in> set xs \<and> P i \<and> m i \<noteq> None then map_option f (m i) else map_of acc0 i)"
  by (induction xs arbitrary: acc0) (auto simp: update_conv' split: option.splits)

lemma install_fold_nothing:
  "\<forall>x \<in> set xs. \<not> P x \<Longrightarrow> fold (\<lambda>ident acc. if P ident then h ident acc else acc) xs acc0 = acc0"
  by (induction xs arbitrary: acc0) auto

lemma versionChanged_same: "ident \<in> set (map fst L) \<Longrightarrow> \<not> versionChanged L L ident"
  by (cases "map_of L ident") (auto simp: versionChanged_def map_of_eq_None_iff)

section \<open>Worked examples on the concrete catalog\<close>

lemmas scenario_defs = scenarioEnv_def scenarioCache_def scenarioCatalog_def scenarioSatisfies_def
  scenarioCompare_def scenarioCoerce_def scenarioReleases_def

lemmas resolver_defs = validate_def validateDependency_def findNode_def collectConstraints_def
  findAllVersionsMatchingAll_def versionSatisfiesAll_def sortByCompare_def tryCandidates_Cons
  getItemData_def getSMLVersionInfo_def modDependencies_def atLeastConstraint_def
  List.map_filter_def remove_def removeArrayElement_def add_eq Let_def
  unsolvableMessage_def manifestMismatchMessage_def toString.simps digit_char_def

lemma scenario_item_A2: "getItemData scenarioEnv ''A'' ''2.0.0'' = Inr nodeA2"
  by (simp add: scenario_defs resolver_defs nodeA2_def)

lemma scenario_item_A1: "getItemData scenarioEnv ''A'' ''1.0.0'' = Inr nodeA1"
  by (simp add: scenario_defs resolver_defs nodeA1_def)

lemma scenario_item_B1: "getItemData scenarioEnv ''B'' ''1.0.0'' = Inr nodeB1"
  by (simp add: scenario_defs resolver_defs nodeB1_def)

lemma scenario_item_B2:
  "getItemData scenarioEnv ''B'' ''2.0.0'' = Inl (ModNotFoundError ''B@2.0.0 not found'')"
  by (simp add: scenario_defs resolver_defs)

lemma scenario_item_C2:
  "getItemData scenarioEnv ''C'' ''2.0.0'' = Inl (ModNotFoundError ''C@2.0.0 not found'')"
  by (simp add: scenario_defs resolver_defs)

lemma scenario_validate_N: "validate scenarioEnv [nodeN] nodeN = ([nodeN, nodeA2], None)"
  by (simp add: scenario_defs resolver_defs nodeN_def nodeA2_def)

lemma scenario_validate_A2:
  "validate scenarioEnv [nodeN, nodeA2] nodeA2 =
     ([nodeN, nodeA2], Some (UnsolvableDependencyError ''No version found for dependency X of A''))"
  by (simp add: scenario_defs resolver_defs nodeN_def nodeA2_def)

lemma scenario_validate_A1: "snd (validate scenarioEnv [nodeN, nodeA1] nodeA1) = None"
  by (simp add: scenario_defs resolver_defs nodeN_def nodeA1_def)

section \<open>The claims\<close>

subsection \<open>C1: trying a candidate\<close>

text \<open>
  Claim C1, as the code has it. When the candidate loop tries a version \<open>v\<close> for which
  \<^verbatim>\<open>getItemData(depId, v)\<close> returns a child, it adds the child to the graph (appending it, or
  leaving the graph as it is when a node with the child's id is present) and accepts the
  candidate at once, with \<^verbatim>\<open>found = true\<close>: the result does not depend on any validation of
  the child, the child is never removed again, and the remaining candidates are not tried.
\<close>

theorem candidate_accepted_without_validation:
  assumes "version \<noteq> []" and "getItemData E depId version = Inr child"
  shows "tryCandidates E depId g (version # rest) =
           (if list_ex (\<lambda>graphNode. node_id graphNode = node_id child) g then g else g @ [child],
            Inr True)"
  using assms by (simp add: tryCandidates_Cons)

theorem candidate_accepted_without_validation_witness:
  "''2.0.0'' \<noteq> [] \<and> getItemData scenarioEnv ''A'' ''2.0.0'' = Inr nodeA2
   \<and> tryCandidates scenarioEnv ''A'' [nodeN] [''2.0.0'', ''1.0.0''] = ([nodeN, nodeA2], Inr True)"
proof -
  have h1: "''2.0.0'' \<noteq> []" by simp
  have "tryCandidates scenarioEnv ''A'' [nodeN] [''2.0.0'', ''1.0.0''] =
          (if list_ex (\<lambda>graphNode. node_id graphNode = node_id nodeA2) [nodeN] then [nodeN]
           else [nodeN] @ [nodeA2], Inr True)"
    by (rule candidate_accepted_without_validation [OF h1 scenario_item_A2])
  then have "tryCandidates scenarioEnv ''A'' [nodeN] [''2.0.0'', ''1.0.0''] = ([nodeN, nodeA2], Inr True)"
    by (simp add: nodeN_def nodeA2_def)
  with scenario_item_A2 show ?thesis by (simp only: simp_thms list.distinct not_False_eq_True)
qed

text \<open>
  The claim as stated (the child is validated recursively, and on failure removed and the
  next lower candidate tried) fails here: \<^verbatim>\<open>N\<close> needs \<^verbatim>\<open>A\<close>; \<^verbatim>\<open>A@2.0.0\<close> needs \<^verbatim>\<open>X\<close>, which has
  no version, so validating it in the graph it was added to fails; \<^verbatim>\<open>A@1.0.0\<close> would
  validate. Still \<^verbatim>\<open>validate(N)\<close> succeeds and leaves \<^verbatim>\<open>A@2.0.0\<close> in the graph.
\<close>

theorem recursive_validation_counterexample:
  "validate scenarioEnv [nodeN] nodeN = ([nodeN, nodeA2], None)
   \<and> validate scenarioEnv [nodeN, nodeA2] nodeA2 =
       ([nodeN, nodeA2], Some (UnsolvableDependencyError ''No version found for dependency X of A''))
   \<and> getItemData scenarioEnv ''A'' ''1.0.0'' = Inr nodeA1
   \<and> snd (validate scenarioEnv [nodeN, nodeA1] nodeA1) = None"
  using scenario_validate_N scenario_validate_A2 scenario_item_A1 scenario_validate_A1 by simp

subsection \<open>C2: a failure of getItemData in the candidate loop\<close>

text \<open>
  Claim C2, as the code has it. \<^verbatim>\<open>getItemData\<close> is called before the \<^verbatim>\<open>try\<close> block of the
  candidate loop. When a dependency of \<open>N\<close> has to be resolved (it is missing, or its node is
  not in the manifest and does not satisfy the constraint) and \<^verbatim>\<open>getItemData\<close> fails for the
  first candidate popped (the highest), that error leaves \<^verbatim>\<open>validate(N)\<close> as it is: no further
  candidate is tried, and a node removed for this dependency is not put back.
\<close>

theorem getItemData_error_leaves_validate:
  assumes "node_dependencies N = pre @ (depId, c) # post"
    and "forEachAsync (validateDependency E N) g0 pre = (g, None)"
    and "findNode g depId = stale"
    and "case stale of None \<Rightarrow> True
         | Some d \<Rightarrow> \<not> semver_satisfies E (node_version d) c \<and> \<not> isInManifest d"
    and "g1 = (case stale of None \<Rightarrow> g | Some d \<Rightarrow> remove g d)"
    and "findAllVersionsMatchingAll E depId (collectConstraints g1 depId) = Inr cands"
    and "sortByCompare (semver_compare E) cands = lower @ [version]"
    and "version \<noteq> []"
    and "getItemData E depId version = Inl e"
  shows "validate E g0 N = (g1, Some e)"
proof -
  have "tryCandidates E depId g1 (rev (sortByCompare (semver_compare E) cands)) = (g1, Inl e)"
    using assms(7,8,9) by (simp add: tryCandidates_Cons)
  then have "validateDependency E N g (depId, c) = (g1, Some e)"
    using validateDependency_resolve [OF assms(3,4,5,6)] by simp
  then show ?thesis
    by (simp add: validate_split [OF assms(1,2)])
qed

theorem getItemData_error_leaves_validate_witness:
  "node_dependencies dependerOnB = [] @ (''B'', ''>=1.0.0'') # []
   \<and> findNode [dependerOnB, staleB] ''B'' = Some staleB
   \<and> \<not> semver_satisfies scenarioEnv (node_version staleB) ''>=1.0.0'' \<and> \<not> isInManifest staleB
   \<and> findAllVersionsMatchingAll scenarioEnv ''B'' (collectConstraints [dependerOnB] ''B'')
       = Inr [''1.0.0'', ''2.0.0'']
   \<and> sortByCompare (semver_compare scenarioEnv) [''1.0.0'', ''2.0.0''] = [''1.0.0''] @ [''2.0.0'']
   \<and> getItemData scenarioEnv ''B'' ''2.0.0'' = Inl (ModNotFoundError ''B@2.0.0 not found'')
   \<and> validate scenarioEnv [dependerOnB, staleB] dependerOnB
       = ([dependerOnB], Some (ModNotFoundError ''B@2.0.0 not found''))"
proof -
  have h1: "node_dependencies dependerOnB = [] @ (''B'', ''>=1.0.0'') # []"
    by (simp add: dependerOnB_def staleB_def)
  have h2: "forEachAsync (validateDependency scenarioEnv dependerOnB) [dependerOnB, staleB] []
              = ([dependerOnB, staleB], None)"
    by simp
  have h3: "findNode [dependerOnB, staleB] ''B'' = Some staleB"
    by (simp add: findNode_def dependerOnB_def staleB_def)
  have h4: "case Some staleB of None \<Rightarrow> True
            | Some d \<Rightarrow> \<not> semver_satisfies scenarioEnv (node_version d) ''>=1.0.0'' \<and> \<not> isInManifest d"
    by (simp add: scenario_defs dependerOnB_def staleB_def)
  have h5: "[dependerOnB] = (case Some staleB of None \<Rightarrow> [dependerOnB, staleB]
                             | Some d \<Rightarrow> remove [dependerOnB, staleB] d)"
    by (simp add: remove_def removeArrayElement_def dependerOnB_def staleB_def)
  have h6: "findAllVersionsMatchingAll scenarioEnv ''B'' (collectConstraints [dependerOnB] ''B'')
              = Inr [''1.0.0'', ''2.0.0'']"
    by (simp add: scenario_defs resolver_defs dependerOnB_def staleB_def)
  have h7: "sortByCompare (semver_compare scenarioEnv) [''1.0.0'', ''2.0.0''] = [''1.0.0''] @ [''2.0.0'']"
    by (simp add: scenario_defs sortByCompare_def)
  have h8: "''2.0.0'' \<noteq> []" by simp
  have "validate scenarioEnv [dependerOnB, staleB] dependerOnB
          = ([dependerOnB], Some (ModNotFoundError ''B@2.0.0 not found''))"
    by (rule getItemData_error_leaves_validate [OF h1 h2 h3 h4 h5 h6 h7 h8 scenario_item_B2])
  moreover note h1 h3 h6 h7 scenario_item_B2
  moreover from h4 have "\<not> semver_satisfies scenarioEnv (node_version staleB) ''>=1.0.0''"
    and "\<not> isInManifest staleB"
    by simp_all
  ultimately show ?thesis
    by (simp only: h1 h3 h6 h7 scenario_item_B2 simp_thms)
qed

text \<open>
  The claim as stated (the failure is caught and the next candidate is tried) fails here:
  \<^verbatim>\<open>B\<close> is missing, the candidates are 1.0.0 and 2.0.0, \<^verbatim>\<open>getItemData\<close> fails for 2.0.0 and
  would succeed for 1.0.0; \<^verbatim>\<open>validate\<close> throws the error of 2.0.0 and binds nothing.
\<close>

theorem getItemData_error_counterexample:
  "findAllVersionsMatchingAll scenarioEnv ''B'' (collectConstraints [dependerOnB] ''B'')
     = Inr [''1.0.0'', ''2.0.0'']
   \<and> getItemData scenarioEnv ''B'' ''2.0.0'' = Inl (ModNotFoundError ''B@2.0.0 not found'')
   \<and> getItemData scenarioEnv ''B'' ''1.0.0'' = Inr nodeB1
   \<and> validate scenarioEnv [dependerOnB] dependerOnB
       = ([dependerOnB], Some (ModNotFoundError ''B@2.0.0 not found''))"
proof -
  have "findAllVersionsMatchingAll scenarioEnv ''B'' (collectConstraints [dependerOnB] ''B'')
          = Inr [''1.0.0'', ''2.0.0'']"
    by (simp add: scenario_defs resolver_defs dependerOnB_def staleB_def)
  moreover have "validate scenarioEnv [dependerOnB] dependerOnB
       = ([dependerOnB], Some (ModNotFoundError ''B@2.0.0 not found''))"
    by (simp add: scenario_defs resolver_defs dependerOnB_def staleB_def)
  ultimately show ?thesis
    by (simp only: scenario_item_B2 scenario_item_B1 simp_thms)
qed

subsection \<open>C3: a dependency pinned by the manifest\<close>

text \<open>
  Claim C3, as the code has it. Let \<open>D\<close> be the node the lookup by id finds for \<open>depId\<close> (the
  first node with that id), let \<open>D\<close> be in the manifest, and let its version not satisfy the
  constraint \<open>c\<close> that \<open>N\<close> declares on \<open>depId\<close>. Then \<^verbatim>\<open>validate(N)\<close> fails, and afterwards \<open>D\<close> is
  still in the graph and still the node found for \<open>depId\<close>. The dependencies of \<open>N\<close> are
  processed in order and the first error ends the call: the error is
  \<^verbatim>\<open>DependencyManifestMismatch\<close> when the dependencies listed before \<open>depId\<close> went through
  without error, and otherwise it is the error of the first of those that failed.
\<close>

theorem manifest_mismatch_fails_validate:
  assumes "findNode g depId = Some D" and "isInManifest D"
    and "\<not> semver_satisfies E (node_version D) c"
    and "node_dependencies N = pre @ (depId, c) # post"
  shows "validate E g N =
           (fst (forEachAsync (validateDependency E N) g pre),
            Some (case snd (forEachAsync (validateDependency E N) g pre) of
                    None \<Rightarrow> DependencyManifestMismatchError (manifestMismatchMessage depId D N c)
                  | Some e \<Rightarrow> e))
         \<and> findNode (fst (validate E g N)) depId = Some D
         \<and> D \<in> set (fst (validate E g N))"
proof -
  obtain g1 r where pre: "forEachAsync (validateDependency E N) g pre = (g1, r)"
    by (cases "forEachAsync (validateDependency E N) g pre")
  have F1: "findNode g1 depId = Some D"
    using forEachAsync_invariant [where P = "\<lambda>g. findNode g depId = Some D"
        and f = "validateDependency E N" and s = g and xs = pre]
      assms(1,2) validateDependency_keeps_found_manifest pre
    by simp
  have v: "validate E g N =
        (g1, Some (case r of None \<Rightarrow> DependencyManifestMismatchError (manifestMismatchMessage depId D N c)
                  | Some e \<Rightarrow> e))"
  proof (cases r)
    case None
    with pre F1 assms(2,3,4) show ?thesis
      by (simp add: validate_def forEachAsync_append validateDependency_mismatch)
  next
    case (Some e)
    with pre assms(4) show ?thesis
      by (simp add: validate_def forEachAsync_append)
  qed
  from F1 have "D \<in> set g1"
    by (auto simp: findNode_def dest: find_Some_mem)
  with v F1 pre show ?thesis by simp
qed

theorem manifest_mismatch_fails_validate_witness:
  "findNode [dependerOnAP, nodeA2, pinnedP] ''P'' = Some pinnedP \<and> isInManifest pinnedP
   \<and> \<not> semver_satisfies scenarioEnv (node_version pinnedP) ''2.0.0''
   \<and> node_dependencies dependerOnAP = [(''A'', ''>=1.0.0'')] @ (''P'', ''2.0.0'') # []
   \<and> validate scenarioEnv [dependerOnAP, nodeA2, pinnedP] dependerOnAP
       = ([dependerOnAP, nodeA2, pinnedP],
          Some (DependencyManifestMismatchError
                  ''Dependency P@1.4.1 is NOT GOOD for NAP@1.0.0 (requires 2.0.0), and it is in the manifest''))
   \<and> pinnedP \<in> set (fst (validate scenarioEnv [dependerOnAP, nodeA2, pinnedP] dependerOnAP))"
proof -
  have h1: "findNode [dependerOnAP, nodeA2, pinnedP] ''P'' = Some pinnedP"
    by (simp add: findNode_def dependerOnAP_def nodeA2_def pinnedP_def)
  have h2: "isInManifest pinnedP"
    by (simp add: dependerOnAP_def nodeA2_def pinnedP_def)
  have h3: "\<not> semver_satisfies scenarioEnv (node_version pinnedP) ''2.0.0''"
    by (simp add: scenario_defs dependerOnAP_def nodeA2_def pinnedP_def)
  have h4: "node_dependencies dependerOnAP = [(''A'', ''>=1.0.0'')] @ (''P'', ''2.0.0'') # []"
    by (simp add: dependerOnAP_def nodeA2_def pinnedP_def)
  have before: "forEachAsync (validateDependency scenarioEnv dependerOnAP)
                  [dependerOnAP, nodeA2, pinnedP] [(''A'', ''>=1.0.0'')]
                = ([dependerOnAP, nodeA2, pinnedP], None)"
    by (simp add: scenario_defs resolver_defs dependerOnAP_def nodeA2_def pinnedP_def)
  have message: "manifestMismatchMessage ''P'' pinnedP dependerOnAP ''2.0.0''
      = ''Dependency P@1.4.1 is NOT GOOD for NAP@1.0.0 (requires 2.0.0), and it is in the manifest''"
    by (simp add: manifestMismatchMessage_def dependerOnAP_def nodeA2_def pinnedP_def)
  note result = manifest_mismatch_fails_validate [OF h1 h2 h3 h4]
  from result [THEN conjunct1]
  have "validate scenarioEnv [dependerOnAP, nodeA2, pinnedP] dependerOnAP
       = ([dependerOnAP, nodeA2, pinnedP],
          Some (DependencyManifestMismatchError
                  ''Dependency P@1.4.1 is NOT GOOD for NAP@1.0.0 (requires 2.0.0), and it is in the manifest''))"
    by (simp only: before message fst_conv snd_conv option.case)
  moreover from result
  have "pinnedP \<in> set (fst (validate scenarioEnv [dependerOnAP, nodeA2, pinnedP] dependerOnAP))"
    by (rule conjunct2 [THEN conjunct2])
  ultimately show ?thesis
    by (simp only: h1 h2 h3 h4 simp_thms)
qed

text \<open>
  The claim as stated (\<^verbatim>\<open>validate(N)\<close> fails with \<^verbatim>\<open>DependencyManifestMismatch\<close>) fails here:
  \<open>P\<close> is in the manifest at 1.4.1 and the node requires 2.0.0 of it, but the node lists the
  unsolvable dependency \<open>X\<close> first, and that error is the one thrown.
\<close>

theorem manifest_mismatch_counterexample:
  "findNode [dependerOnXP, pinnedP] ''P'' = Some pinnedP \<and> isInManifest pinnedP
   \<and> \<not> semver_satisfies scenarioEnv (node_version pinnedP) ''2.0.0''
   \<and> map_of (node_dependencies dependerOnXP) ''P'' = Some ''2.0.0''
   \<and> validate scenarioEnv [dependerOnXP, pinnedP] dependerOnXP
       = ([dependerOnXP, pinnedP],
          Some (UnsolvableDependencyError ''No version found for dependency X of NXP''))"
proof -
  have "validate scenarioEnv [dependerOnXP, pinnedP] dependerOnXP
       = ([dependerOnXP, pinnedP],
          Some (UnsolvableDependencyError ''No version found for dependency X of NXP''))"
    by (simp add: scenario_defs resolver_defs dependerOnXP_def pinnedP_def)
  moreover have "findNode [dependerOnXP, pinnedP] ''P'' = Some pinnedP"
    by (simp add: findNode_def dependerOnXP_def pinnedP_def)
  moreover have "\<not> semver_satisfies scenarioEnv (node_version pinnedP) ''2.0.0''"
    by (simp add: scenario_defs dependerOnXP_def pinnedP_def)
  moreover have "isInManifest pinnedP"
    and "map_of (node_dependencies dependerOnXP) ''P'' = Some ''2.0.0''"
    by (simp_all add: dependerOnXP_def pinnedP_def)
  ultimately show ?thesis by (simp only: simp_thms)
qed

subsection \<open>C4: no version found\<close>

text \<open>
  Claim C4, as the code has it. Let node ids be unique in the graph, let \<open>D\<close> be the node
  found for \<open>depId\<close>, not in the manifest and not satisfying the constraint of \<open>N\<close>, so that it
  is removed. When the candidate loop ends without a binding, which it does exactly when the
  catalog returned no candidate or the version popped first is the empty string, the
  resolver puts \<open>D\<close> back at the end of the node list and \<^verbatim>\<open>validate(N)\<close> fails with
  \<^verbatim>\<open>UnsolvableDependency(depId, N.id)\<close>; the graph then holds \<open>D\<close> again.
\<close>

theorem unsolvable_dependency_restores_node:
  assumes "node_dependencies N = pre @ (depId, c) # post"
    and "forEachAsync (validateDependency E N) g0 pre = (g, None)"
    and "findNode g depId = Some D"
    and "\<not> semver_satisfies E (node_version D) c" and "\<not> isInManifest D"
    and "distinct (map node_id g)"
    and "findAllVersionsMatchingAll E depId (collectConstraints (remove g D) depId) = Inr cands"
    and "cands = [] \<or> last (sortByCompare (semver_compare E) cands) = []"
  shows "validate E g0 N =
           (remove g D @ [D], Some (UnsolvableDependencyError (unsolvableMessage depId N)))"
proof -
  from assms(3) have D: "D \<in> set g"
    by (auto simp: findNode_def dest: find_Some_mem)
  have t: "tryCandidates E depId (remove g D) (rev (sortByCompare (semver_compare E) cands))
             = (remove g D, Inr False)"
  proof (cases "cands = []")
    case True
    then show ?thesis by (simp add: sortByCompare_def)
  next
    case False
    with assms(8) show ?thesis
      by (simp add: rev_sorted_pops_last tryCandidates_Cons)
  qed
  have "validateDependency E N g (depId, c) =
          (fst (add (remove g D) D), Some (UnsolvableDependencyError (unsolvableMessage depId N)))"
    using validateDependency_resolve [OF assms(3) _ _ assms(7) t, of c N] assms(4,5) by simp
  moreover have "fst (add (remove g D) D) = remove g D @ [D]"
    using remove_unique_id [OF assms(6) D] by (simp add: add_eq)
  ultimately show ?thesis
    by (simp add: validate_split [OF assms(1,2)])
qed

theorem unsolvable_dependency_restores_node_witness:
  "node_dependencies dependerOnX = [] @ (''X'', ''1.0.0'') # []
   \<and> findNode [staleX, dependerOnX] ''X'' = Some staleX
   \<and> \<not> semver_satisfies scenarioEnv (node_version staleX) ''1.0.0'' \<and> \<not> isInManifest staleX
   \<and> distinct (map node_id [staleX, dependerOnX])
   \<and> findAllVersionsMatchingAll scenarioEnv ''X''
         (collectConstraints (remove [staleX, dependerOnX] staleX) ''X'') = Inr []
   \<and> validate scenarioEnv [staleX, dependerOnX] dependerOnX
       = ([dependerOnX, staleX],
          Some (UnsolvableDependencyError ''No version found for dependency X of NX''))"
proof -
  have h1: "node_dependencies dependerOnX = [] @ (''X'', ''1.0.0'') # []"
    by (simp add: dependerOnX_def staleX_def)
  have h2: "forEachAsync (validateDependency scenarioEnv dependerOnX) [staleX, dependerOnX] []
              = ([staleX, dependerOnX], None)"
    by simp
  have h3: "findNode [staleX, dependerOnX] ''X'' = Some staleX"
    by (simp add: findNode_def dependerOnX_def staleX_def)
  have h4: "\<not> semver_satisfies scenarioEnv (node_version staleX) ''1.0.0''"
    by (simp add: scenario_defs dependerOnX_def staleX_def)
  have h5: "\<not> isInManifest staleX"
    by (simp add: dependerOnX_def staleX_def)
  have h6: "distinct (map node_id [staleX, dependerOnX])"
    by (simp add: dependerOnX_def staleX_def)
  have h7: "findAllVersionsMatchingAll scenarioEnv ''X''
              (collectConstraints (remove [staleX, dependerOnX] staleX) ''X'') = Inr []"
    by (simp add: scenario_defs resolver_defs dependerOnX_def staleX_def)
  have h8: "([]::string list) = [] \<or> last (sortByCompare (semver_compare scenarioEnv) []) = []"
    by simp
  have gone: "remove [staleX, dependerOnX] staleX = [dependerOnX]"
    by (simp add: remove_def removeArrayElement_def)
  have message: "unsolvableMessage ''X'' dependerOnX = ''No version found for dependency X of NX''"
    by (simp add: unsolvableMessage_def dependerOnX_def staleX_def)
  have "validate scenarioEnv [staleX, dependerOnX] dependerOnX
       = ([dependerOnX, staleX],
          Some (UnsolvableDependencyError ''No version found for dependency X of NX''))"
    using unsolvable_dependency_restores_node [OF h1 h2 h3 h4 h5 h6 h7 h8]
    by (simp only: gone message append.simps)
  then show ?thesis by (simp only: h1 h3 h4 h5 h6 h7 simp_thms)
qed

text \<open>
  The claim as stated fails when the candidates fail in \<^verbatim>\<open>getItemData\<close>: here the stale
  \<^verbatim>\<open>C@0.9.0\<close> is removed, the only candidate 2.0.0 cannot be fetched, and \<^verbatim>\<open>validate\<close> ends with
  that error; the stale node is not put back and the error is not \<^verbatim>\<open>UnsolvableDependency\<close>.
\<close>

theorem unsolvable_dependency_counterexample:
  "findNode [dependerOnC, staleC] ''C'' = Some staleC \<and> \<not> isInManifest staleC
   \<and> \<not> semver_satisfies scenarioEnv (node_version staleC) ''>=1.0.0''
   \<and> findAllVersionsMatchingAll scenarioEnv ''C'' (collectConstraints [dependerOnC] ''C'')
       = Inr [''2.0.0'']
   \<and> getItemData scenarioEnv ''C'' ''2.0.0'' = Inl (ModNotFoundError ''C@2.0.0 not found'')
   \<and> validate scenarioEnv [dependerOnC, staleC] dependerOnC
       = ([dependerOnC], Some (ModNotFoundError ''C@2.0.0 not found''))
   \<and> staleC \<notin> set (fst (validate scenarioEnv [dependerOnC, staleC] dependerOnC))"
proof -
  have v: "validate scenarioEnv [dependerOnC, staleC] dependerOnC
       = ([dependerOnC], Some (ModNotFoundError ''C@2.0.0 not found''))"
    by (simp add: scenario_defs resolver_defs dependerOnC_def staleC_def)
  have absent: "staleC \<notin> set [dependerOnC]"
    by (simp add: dependerOnC_def staleC_def)
  have "staleC \<notin> set (fst (validate scenarioEnv [dependerOnC, staleC] dependerOnC))"
    by (simp only: v fst_conv absent simp_thms)
  moreover have "findNode [dependerOnC, staleC] ''C'' = Some staleC"
    by (simp add: findNode_def dependerOnC_def staleC_def)
  moreover have "\<not> semver_satisfies scenarioEnv (node_version staleC) ''>=1.0.0''"
    by (simp add: scenario_defs dependerOnC_def staleC_def)
  moreover have "\<not> isInManifest staleC"
    by (simp add: dependerOnC_def staleC_def)
  moreover have "findAllVersionsMatchingAll scenarioEnv ''C'' (collectConstraints [dependerOnC] ''C'')
       = Inr [''2.0.0'']"
    by (simp add: scenario_defs resolver_defs dependerOnC_def staleC_def)
  ultimately show ?thesis
    by (simp only: v scenario_item_C2 simp_thms)
qed

subsection \<open>C5: manifest nodes are preserved\<close>

text \<open>
  Claim C5. A node \<open>M\<close> of the graph with \<^verbatim>\<open>isInManifest = true\<close> is still in the graph, with
  the same version and contents, after \<^verbatim>\<open>validate\<close> on any node and after \<^verbatim>\<open>validateAll\<close>,
  whether the call returned or threw.
\<close>

theorem manifest_nodes_preserved:
  assumes "M \<in> set g" "isInManifest M"
  shows "M \<in> set (fst (validate E g N))
         \<and> (\<forall>fuel g' r. validateAll E fuel g = Some (g', r) \<longrightarrow> M \<in> set g')"
  using assms validate_keeps_manifest validateAllFrom_keeps_manifest
  unfolding validateAll_def by blast

theorem manifest_nodes_preserved_witness:
  "nodeN \<in> set [nodeN] \<and> isInManifest nodeN
   \<and> nodeN \<in> set (fst (validate scenarioEnv [nodeN] nodeN))
   \<and> validateAll scenarioEnv (Suc (Suc (Suc 0))) [nodeN]
       = Some ([nodeN, nodeA2],
               Some (UnsolvableDependencyError ''No version found for dependency X of A''))
   \<and> nodeN \<in> set [nodeN, nodeA2]"
proof -
  have h1: "nodeN \<in> set [nodeN]" by simp
  have h2: "isInManifest nodeN" by (simp add: nodeN_def)
  have run: "validateAll scenarioEnv (Suc (Suc (Suc 0))) [nodeN]
       = Some ([nodeN, nodeA2],
               Some (UnsolvableDependencyError ''No version found for dependency X of A''))"
    by (simp add: validateAll_def scenario_validate_N scenario_validate_A2)
  note kept = manifest_nodes_preserved [OF h1 h2, of scenarioEnv nodeN]
  from kept have "nodeN \<in> set (fst (validate scenarioEnv [nodeN] nodeN))"
    by (rule conjunct1)
  moreover from kept [THEN conjunct2, rule_format, OF run] have "nodeN \<in> set [nodeN, nodeA2]" .
  ultimately show ?thesis
    by (simp only: h1 h2 run simp_thms)
qed

subsection \<open>C6: the highest candidate wins\<close>

text \<open>
  Claim C6, as the code has it. The candidates are versions of the catalog that satisfy every
  constraint the nodes of the graph put on the dependency; they are sorted ascending by
  \<^verbatim>\<open>compare\<close> (a total preorder on them) and popped from the end, so the highest candidate is
  the one tried, in whatever order the catalog listed them. When a dependency has to be
  resolved and \<open>v1 < v2\<close> are candidates whose \<^verbatim>\<open>getItemData\<close> succeeds, and \<open>v2\<close> is the highest
  of all the candidates, then \<open>v2\<close> is popped first, it satisfies every collected constraint,
  and the dependency is bound to the node of \<open>v2\<close>.
\<close>

theorem highest_candidate_is_bound:
  assumes "findNode g depId = stale"
    and "case stale of None \<Rightarrow> True
         | Some d \<Rightarrow> \<not> semver_satisfies E (node_version d) c \<and> \<not> isInManifest d"
    and "g1 = (case stale of None \<Rightarrow> g | Some d \<Rightarrow> remove g d)"
    and "findAllVersionsMatchingAll E depId (collectConstraints g1 depId) = Inr cands"
    and "\<forall>a \<in> set cands. \<forall>b \<in> set cands. semver_compare E a b \<le> 0 \<or> semver_compare E b a \<le> 0"
    and "\<forall>a \<in> set cands. \<forall>b \<in> set cands. \<forall>c \<in> set cands.
           semver_compare E a b \<le> 0 \<longrightarrow> semver_compare E b c \<le> 0 \<longrightarrow> semver_compare E a c \<le> 0"
    and "v1 \<in> set cands" and "v2 \<in> set cands" and "semver_compare E v1 v2 < 0"
    and "\<forall>v \<in> set cands. v \<noteq> v2 \<longrightarrow> semver_compare E v v2 \<le> 0 \<and> 0 < semver_compare E v2 v"
    and "v2 \<noteq> []"
    and "getItemData E depId v1 = Inr child1" and "getItemData E depId v2 = Inr child2"
  shows "sorted_wrt (\<lambda>a b. semver_compare E a b \<le> 0) (sortByCompare (semver_compare E) cands)
         \<and> rev (sortByCompare (semver_compare E) cands)
           = v2 # rev (butlast (sortByCompare (semver_compare E) cands))
         \<and> (\<forall>graphNode \<in> set g1. \<forall>versionConstraint.
               map_of (node_dependencies graphNode) depId = Some versionConstraint
                 \<longrightarrow> semver_satisfies E v2 versionConstraint)
         \<and> validateDependency E N g (depId, c) =
             (if list_ex (\<lambda>graphNode. node_id graphNode = node_id child2) g1 then g1
              else g1 @ [child2], None)"
proof -
  have ascending: "sorted_wrt (\<lambda>a b. semver_compare E a b \<le> 0) (sortByCompare (semver_compare E) cands)"
    using assms(5,6) by (rule sorted_sortByCompare)
  have ne: "sortByCompare (semver_compare E) cands \<noteq> []"
    using assms(8) by auto
  have "last (sortByCompare (semver_compare E) cands) = v2"
    using assms(8,10) by (rule last_sortByCompare)
  with ne have pop: "rev (sortByCompare (semver_compare E) cands)
           = v2 # rev (butlast (sortByCompare (semver_compare E) cands))"
    by (simp add: rev_sorted_pops_last)
  have satisfying: "\<forall>graphNode \<in> set g1. \<forall>versionConstraint.
               map_of (node_dependencies graphNode) depId = Some versionConstraint
                 \<longrightarrow> semver_satisfies E v2 versionConstraint"
    using candidate_satisfies_collected [OF assms(4,8)] by blast
  have "tryCandidates E depId g1 (rev (sortByCompare (semver_compare E) cands)) =
          (if list_ex (\<lambda>graphNode. node_id graphNode = node_id child2) g1 then g1
           else g1 @ [child2], Inr True)"
    unfolding pop using assms(11,13) by (simp add: tryCandidates_Cons)
  then have "validateDependency E N g (depId, c) =
             (if list_ex (\<lambda>graphNode. node_id graphNode = node_id child2) g1 then g1
              else g1 @ [child2], None)"
    using validateDependency_resolve [OF assms(1,2,3,4)] by simp
  with ascending pop satisfying show ?thesis by (intro conjI)
qed

theorem highest_candidate_is_bound_witness:
  "findNode [nodeN] ''A'' = None
   \<and> findAllVersionsMatchingAll scenarioEnv ''A'' (collectConstraints [nodeN] ''A'')
       = Inr [''2.0.0'', ''1.0.0'']
   \<and> semver_compare scenarioEnv ''1.0.0'' ''2.0.0'' < 0
   \<and> getItemData scenarioEnv ''A'' ''1.0.0'' = Inr nodeA1
   \<and> getItemData scenarioEnv ''A'' ''2.0.0'' = Inr nodeA2
   \<and> sortByCompare (semver_compare scenarioEnv) [''2.0.0'', ''1.0.0''] = [''1.0.0'', ''2.0.0'']
   \<and> map_of (node_dependencies nodeN) ''A'' = Some ''>=1.0.0''
   \<and> semver_satisfies scenarioEnv ''2.0.0'' ''>=1.0.0''
   \<and> validateDependency scenarioEnv nodeN [nodeN] (''A'', ''>=1.0.0'') = ([nodeN, nodeA2], None)"
proof -
  have h1: "findNode [nodeN] ''A'' = None"
    by (simp add: findNode_def nodeN_def)
  have h2: "case None of None \<Rightarrow> True
            | Some d \<Rightarrow> \<not> semver_satisfies scenarioEnv (node_version d) ''>=1.0.0'' \<and> \<not> isInManifest d"
    by simp
  have h3: "[nodeN] = (case None of None \<Rightarrow> [nodeN] | Some d \<Rightarrow> remove [nodeN] d)"
    by simp
  have h4: "findAllVersionsMatchingAll scenarioEnv ''A'' (collectConstraints [nodeN] ''A'')
              = Inr [''2.0.0'', ''1.0.0'']"
    by (simp add: scenario_defs resolver_defs nodeN_def)
  have total: "\<forall>a \<in> set [''2.0.0'', ''1.0.0'']. \<forall>b \<in> set [''2.0.0'', ''1.0.0''].
                 semver_compare scenarioEnv a b \<le> 0 \<or> semver_compare scenarioEnv b a \<le> 0"
    by (simp add: scenario_defs)
  have trans: "\<forall>a \<in> set [''2.0.0'', ''1.0.0'']. \<forall>b \<in> set [''2.0.0'', ''1.0.0''].
                 \<forall>c \<in> set [''2.0.0'', ''1.0.0''].
                   semver_compare scenarioEnv a b \<le> 0 \<longrightarrow> semver_compare scenarioEnv b c \<le> 0
                     \<longrightarrow> semver_compare scenarioEnv a c \<le> 0"
    by (simp add: scenario_defs)
  have h5: "''1.0.0'' \<in> set [''2.0.0'', ''1.0.0'']" and h6: "''2.0.0'' \<in> set [''2.0.0'', ''1.0.0'']"
    by simp_all
  have h7: "semver_compare scenarioEnv ''1.0.0'' ''2.0.0'' < 0"
    by (simp add: scenario_defs)
  have h8: "\<forall>v \<in> set [''2.0.0'', ''1.0.0'']. v \<noteq> ''2.0.0'' \<longrightarrow>
              semver_compare scenarioEnv v ''2.0.0'' \<le> 0 \<and> 0 < semver_compare scenarioEnv ''2.0.0'' v"
    by (simp add: scenario_defs)
  have h9: "''2.0.0'' \<noteq> []" by simp
  have order: "sortByCompare (semver_compare scenarioEnv) [''2.0.0'', ''1.0.0''] = [''1.0.0'', ''2.0.0'']"
    by (simp add: scenario_defs sortByCompare_def)
  have declared: "map_of (node_dependencies nodeN) ''A'' = Some ''>=1.0.0''"
    by (simp add: nodeN_def)
  have member: "nodeN \<in> set [nodeN]" by simp
  note bound = highest_candidate_is_bound
            [OF h1 h2 h3 h4 total trans h5 h6 h7 h8 h9 scenario_item_A1 scenario_item_A2, of nodeN]
  have satisfied: "semver_satisfies scenarioEnv ''2.0.0'' ''>=1.0.0''"
    using bound [THEN conjunct2, THEN conjunct2, THEN conjunct1, rule_format, OF member declared] .
  have "validateDependency scenarioEnv nodeN [nodeN] (''A'', ''>=1.0.0'') = ([nodeN, nodeA2], None)"
    using bound [THEN conjunct2, THEN conjunct2, THEN conjunct2]
    by (simp add: nodeN_def nodeA2_def)
  then show ?thesis
    by (simp only: h1 h4 h7 order declared satisfied scenario_item_A1 scenario_item_A2 simp_thms)
qed

text \<open>
  The claim as stated (of two candidates \<open>v1 < v2\<close> that each succeed when tried alone, \<open>v2\<close> is
  bound) fails when a higher candidate is listed. The candidates for \<^verbatim>\<open>F\<close> and for \<^verbatim>\<open>G\<close> are
  1.0.0, 2.0.0 and 3.0.0; 1.0.0 and 2.0.0 are fetched and validate in the graph they would
  be added to. For \<^verbatim>\<open>F\<close> the resolver binds 3.0.0, which does not validate there, and not
  2.0.0; for \<^verbatim>\<open>G\<close> the version 3.0.0 cannot be fetched and \<^verbatim>\<open>validate\<close> throws, binding nothing.
\<close>

theorem highest_candidate_counterexample:
  "findAllVersionsMatchingAll tieredEnv ''F'' (collectConstraints [dependerOnF] ''F'')
     = Inr [''1.0.0'', ''2.0.0'', ''3.0.0'']
   \<and> semver_compare tieredEnv ''1.0.0'' ''2.0.0'' < 0
   \<and> getItemData tieredEnv ''F'' ''1.0.0'' = Inr nodeF1
   \<and> validate tieredEnv [dependerOnF, nodeF1] nodeF1 = ([dependerOnF, nodeF1], None)
   \<and> getItemData tieredEnv ''F'' ''2.0.0'' = Inr nodeF2
   \<and> validate tieredEnv [dependerOnF, nodeF2] nodeF2 = ([dependerOnF, nodeF2], None)
   \<and> validate tieredEnv [dependerOnF] dependerOnF = ([dependerOnF, nodeF3], None)
   \<and> nodeF2 \<notin> set [dependerOnF, nodeF3]
   \<and> validate tieredEnv [dependerOnF, nodeF3] nodeF3
       = ([dependerOnF, nodeF3],
          Some (UnsolvableDependencyError ''No version found for dependency X of F''))
   \<and> findAllVersionsMatchingAll tieredEnv ''G'' (collectConstraints [dependerOnG] ''G'')
       = Inr [''1.0.0'', ''2.0.0'', ''3.0.0'']
   \<and> getItemData tieredEnv ''G'' ''1.0.0'' = Inr nodeG1
   \<and> validate tieredEnv [dependerOnG, nodeG1] nodeG1 = ([dependerOnG, nodeG1], None)
   \<and> getItemData tieredEnv ''G'' ''2.0.0'' = Inr nodeG2
   \<and> validate tieredEnv [dependerOnG, nodeG2] nodeG2 = ([dependerOnG, nodeG2], None)
   \<and> validate tieredEnv [dependerOnG] dependerOnG
       = ([dependerOnG], Some (ModNotFoundError ''G@3.0.0 not found''))"
proof -
  note tiered_defs = tieredEnv_def tieredCatalog_def tieredCache_def scenario_defs resolver_defs
  have f0: "findAllVersionsMatchingAll tieredEnv ''F'' (collectConstraints [dependerOnF] ''F'')
     = Inr [''1.0.0'', ''2.0.0'', ''3.0.0'']"
    by (simp add: tiered_defs dependerOnF_def)
  have lt: "semver_compare tieredEnv ''1.0.0'' ''2.0.0'' < 0"
    by (simp add: tiered_defs)
  have f1: "getItemData tieredEnv ''F'' ''1.0.0'' = Inr nodeF1"
    and f2: "getItemData tieredEnv ''F'' ''2.0.0'' = Inr nodeF2"
    by (simp_all add: tiered_defs nodeF1_def nodeF2_def)
  have f1v: "validate tieredEnv [dependerOnF, nodeF1] nodeF1 = ([dependerOnF, nodeF1], None)"
    and f2v: "validate tieredEnv [dependerOnF, nodeF2] nodeF2 = ([dependerOnF, nodeF2], None)"
    by (simp_all add: validate_def nodeF1_def nodeF2_def)
  have fb: "validate tieredEnv [dependerOnF] dependerOnF = ([dependerOnF, nodeF3], None)"
    by (simp add: tiered_defs dependerOnF_def nodeF3_def)
  have fn: "nodeF2 \<notin> set [dependerOnF, nodeF3]"
    by (simp add: nodeF2_def nodeF3_def dependerOnF_def)
  have f3v: "validate tieredEnv [dependerOnF, nodeF3] nodeF3
       = ([dependerOnF, nodeF3],
          Some (UnsolvableDependencyError ''No version found for dependency X of F''))"
    by (simp add: tiered_defs dependerOnF_def nodeF3_def)
  have g0: "findAllVersionsMatchingAll tieredEnv ''G'' (collectConstraints [dependerOnG] ''G'')
       = Inr [''1.0.0'', ''2.0.0'', ''3.0.0'']"
    by (simp add: tiered_defs dependerOnG_def)
  have g1: "getItemData tieredEnv ''G'' ''1.0.0'' = Inr nodeG1"
    and g2: "getItemData tieredEnv ''G'' ''2.0.0'' = Inr nodeG2"
    by (simp_all add: tiered_defs nodeG1_def nodeG2_def)
  have g1v: "validate tieredEnv [dependerOnG, nodeG1] nodeG1 = ([dependerOnG, nodeG1], None)"
    and g2v: "validate tieredEnv [dependerOnG, nodeG2] nodeG2 = ([dependerOnG, nodeG2], None)"
    by (simp_all add: validate_def nodeG1_def nodeG2_def)
  have gb: "validate tieredEnv [dependerOnG] dependerOnG
       = ([dependerOnG], Some (ModNotFoundError ''G@3.0.0 not found''))"
    by (simp add: tiered_defs dependerOnG_def)
  show ?thesis
    by (simp only: f0 lt f1 f2 f1v f2v fb fn f3v g0 g1 g2 g1v g2v gb simp_thms)
qed

subsection \<open>C7: getItemData\<close>

text \<open>
  Claim C7. For the id \<^verbatim>\<open>SML\<close>, \<^verbatim>\<open>getItemData\<close> fails with \<^verbatim>\<open>ModNotFound\<close> when the catalog does
  not list the loader version, and otherwise returns a node whose dependency map is exactly
  \<^verbatim>\<open>SatisfactoryGame\<close> mapped to \<^verbatim>\<open>>=\<close> followed by the coerced game version of that release.
  For the id \<^verbatim>\<open>SatisfactoryGame\<close> it always fails with \<^verbatim>\<open>InvalidLockfileOperation\<close>. For any
  other id it returns the id and version of the cached metadata; a missing dependency field
  gives the empty map, and a loader version in the metadata (present and not empty) is
  merged in under \<^verbatim>\<open>SML\<close> as \<^verbatim>\<open>>=\<close> followed by its coerced form.
\<close>

theorem getItemData_spec:
  "(getAvailableSMLVersions E = Inr releases \<longrightarrow>
      (loaderVersion \<notin> set (map sml_release_version releases) \<longrightarrow>
         getItemData E ''SML'' loaderVersion
           = Inl (ModNotFoundError (''SML@'' @ loaderVersion @ '' not found'')))
      \<and> (loaderVersion \<in> set (map sml_release_version releases) \<longrightarrow>
           (\<exists>info \<in> set releases. sml_release_version info = loaderVersion
              \<and> getItemData E ''SML'' loaderVersion
                  = Inr \<lparr> node_id = ''SML'', node_version = loaderVersion,
                          node_dependencies =
                            [(''SatisfactoryGame'',
                              ''>='' @ (case semver_valid_coerce E (toString (satisfactory_version info)) of
                                         None \<Rightarrow> ''null'' | Some v \<Rightarrow> v))],
                          isInManifest = False \<rparr>)))
   \<and> (\<exists>message. getItemData E ''SatisfactoryGame'' gameVersion = Inl (InvalidLockfileOperation message))
   \<and> (ident \<noteq> ''SML'' \<longrightarrow> ident \<noteq> ''SatisfactoryGame'' \<longrightarrow> getCachedMod E ident version = Inr modData \<longrightarrow>
        (\<exists>node. getItemData E ident version = Inr node
           \<and> node_id node = mod_id modData \<and> node_version node = mod_version modData
           \<and> (mod_dependencies modData = None \<longrightarrow> sml_version modData = None \<longrightarrow>
                 node_dependencies node = [])
           \<and> map_of (node_dependencies node) =
               (let declared = (case mod_dependencies modData of None \<Rightarrow> Map.empty | Some d \<Rightarrow> map_of d) in
                case sml_version modData of
                  None \<Rightarrow> declared
                | Some s \<Rightarrow>
                    if s = [] then declared
                    else declared(''SML'' \<mapsto>
                           ''>='' @ (case semver_valid_coerce E s of None \<Rightarrow> ''null'' | Some v \<Rightarrow> v)))))"
proof (intro conjI impI)
  assume "getAvailableSMLVersions E = Inr releases"
    and "loaderVersion \<notin> set (map sml_release_version releases)"
  then have "find (\<lambda>smlVersion. sml_release_version smlVersion = loaderVersion) releases = None"
    by (auto simp: find_None_iff)
  with \<open>getAvailableSMLVersions E = Inr releases\<close>
  show "getItemData E ''SML'' loaderVersion
           = Inl (ModNotFoundError (''SML@'' @ loaderVersion @ '' not found''))"
    by (simp add: getItemData_def getSMLVersionInfo_def)
next
  assume rel: "getAvailableSMLVersions E = Inr releases"
    and "loaderVersion \<in> set (map sml_release_version releases)"
  then obtain info where
    info: "find (\<lambda>smlVersion. sml_release_version smlVersion = loaderVersion) releases = Some info"
    by (cases "find (\<lambda>smlVersion. sml_release_version smlVersion = loaderVersion) releases")
       (auto simp: find_None_iff)
  then have "info \<in> set releases" "sml_release_version info = loaderVersion"
    by (auto dest: find_Some_mem)
  moreover from rel info have "getItemData E ''SML'' loaderVersion
                  = Inr \<lparr> node_id = ''SML'', node_version = loaderVersion,
                          node_dependencies =
                            [(''SatisfactoryGame'',
                              ''>='' @ (case semver_valid_coerce E (toString (satisfactory_version info)) of
                                         None \<Rightarrow> ''null'' | Some v \<Rightarrow> v))],
                          isInManifest = False \<rparr>"
    by (simp add: getItemData_def getSMLVersionInfo_def atLeastConstraint_def)
  ultimately show "\<exists>info \<in> set releases. sml_release_version info = loaderVersion
              \<and> getItemData E ''SML'' loaderVersion
                  = Inr \<lparr> node_id = ''SML'', node_version = loaderVersion,
                          node_dependencies =
                            [(''SatisfactoryGame'',
                              ''>='' @ (case semver_valid_coerce E (toString (satisfactory_version info)) of
                                         None \<Rightarrow> ''null'' | Some v \<Rightarrow> v))],
                          isInManifest = False \<rparr>"
    by blast
next
  show "\<exists>message. getItemData E ''SatisfactoryGame'' gameVersion = Inl (InvalidLockfileOperation message)"
    by (simp add: getItemData_def)
next
  assume "ident \<noteq> ''SML''" "ident \<noteq> ''SatisfactoryGame''" "getCachedMod E ident version = Inr modData"
  then have g: "getItemData E ident version =
     Inr \<lparr> node_id = mod_id modData, node_version = mod_version modData,
           node_dependencies = modDependencies E modData, isInManifest = False \<rparr>"
    by (simp add: getItemData_def)
  show "\<exists>node. getItemData E ident version = Inr node
           \<and> node_id node = mod_id modData \<and> node_version node = mod_version modData
           \<and> (mod_dependencies modData = None \<longrightarrow> sml_version modData = None \<longrightarrow>
                 node_dependencies node = [])
           \<and> map_of (node_dependencies node) =
               (let declared = (case mod_dependencies modData of None \<Rightarrow> Map.empty | Some d \<Rightarrow> map_of d) in
                case sml_version modData of
                  None \<Rightarrow> declared
                | Some s \<Rightarrow>
                    if s = [] then declared
                    else declared(''SML'' \<mapsto>
                           ''>='' @ (case semver_valid_coerce E s of None \<Rightarrow> ''null'' | Some v \<Rightarrow> v)))"
    unfolding g
    by (cases "mod_dependencies modData"; cases "sml_version modData")
       (simp_all add: modDependencies_def atLeastConstraint_def update_conv' Let_def)
qed

theorem getItemData_spec_witness:
  "getAvailableSMLVersions scenarioEnv = Inr scenarioReleases
   \<and> ''3.0.0'' \<notin> set (map sml_release_version scenarioReleases)
   \<and> getItemData scenarioEnv ''SML'' ''3.0.0'' = Inl (ModNotFoundError ''SML@3.0.0 not found'')
   \<and> ''1.0.1'' \<in> set (map sml_release_version scenarioReleases)
   \<and> getItemData scenarioEnv ''SML'' ''1.0.1''
       = Inr \<lparr> node_id = ''SML'', node_version = ''1.0.1'',
               node_dependencies = [(''SatisfactoryGame'', ''>=109000.0.0'')],
               isInManifest = False \<rparr>
   \<and> (\<exists>message. getItemData scenarioEnv ''SatisfactoryGame'' ''1.0.0''
                   = Inl (InvalidLockfileOperation message))
   \<and> getCachedMod scenarioEnv ''A'' ''1.0.0''
       = Inr \<lparr> mod_id = ''A'', mod_version = ''1.0.0'', mod_dependencies = None,
               sml_version = Some ''1.0.1'' \<rparr>
   \<and> (\<exists>node. getItemData scenarioEnv ''A'' ''1.0.0'' = Inr node
         \<and> node_id node = ''A'' \<and> node_version node = ''1.0.0''
         \<and> map_of (node_dependencies node) = [''SML'' \<mapsto> ''>=1.0.1''])"
proof -
  have h1: "getAvailableSMLVersions scenarioEnv = Inr scenarioReleases"
    by (simp add: scenarioEnv_def)
  have h2: "''3.0.0'' \<notin> set (map sml_release_version scenarioReleases)"
    and h3: "''1.0.1'' \<in> set (map sml_release_version scenarioReleases)"
    by (simp_all add: scenarioReleases_def)
  have h4: "''A'' \<noteq> ''SML''" and h5: "''A'' \<noteq> ''SatisfactoryGame''"
    by simp_all
  have h6: "getCachedMod scenarioEnv ''A'' ''1.0.0''
       = Inr \<lparr> mod_id = ''A'', mod_version = ''1.0.0'', mod_dependencies = None,
               sml_version = Some ''1.0.1'' \<rparr>"
    by (simp add: scenarioEnv_def scenarioCache_def)
  note unknown = getItemData_spec [of scenarioEnv scenarioReleases "''3.0.0''" "''1.0.0''" "''A''"
      "''1.0.0''" "\<lparr> mod_id = ''A'', mod_version = ''1.0.0'', mod_dependencies = None,
               sml_version = Some ''1.0.1'' \<rparr>"]
  note known = getItemData_spec [of scenarioEnv scenarioReleases "''1.0.1''" "''1.0.0''" "''A''"
      "''1.0.0''" "\<lparr> mod_id = ''A'', mod_version = ''1.0.0'', mod_dependencies = None,
               sml_version = Some ''1.0.1'' \<rparr>"]
  have a: "getItemData scenarioEnv ''SML'' ''3.0.0'' = Inl (ModNotFoundError ''SML@3.0.0 not found'')"
    using unknown [THEN conjunct1, rule_format, OF h1, THEN conjunct1, rule_format, OF h2]
    by simp
  have b: "getItemData scenarioEnv ''SML'' ''1.0.1''
       = Inr \<lparr> node_id = ''SML'', node_version = ''1.0.1'',
               node_dependencies = [(''SatisfactoryGame'', ''>=109000.0.0'')],
               isInManifest = False \<rparr>"
  proof -
    from known [THEN conjunct1, rule_format, OF h1, THEN conjunct2, rule_format, OF h3]
    obtain info where "info \<in> set scenarioReleases"
      and "getItemData scenarioEnv ''SML'' ''1.0.1''
             = Inr \<lparr> node_id = ''SML'', node_version = ''1.0.1'',
                     node_dependencies =
                       [(''SatisfactoryGame'',
                         ''>='' @ (case semver_valid_coerce scenarioEnv (toString (satisfactory_version info)) of
                                    None \<Rightarrow> ''null'' | Some v \<Rightarrow> v))],
                     isInManifest = False \<rparr>"
      by (elim bexE conjE)
    moreover from \<open>info \<in> set scenarioReleases\<close> have "satisfactory_version info = 109000"
      by (auto simp: scenarioReleases_def)
    moreover have "toString 109000 = ''109000''"
      by (simp add: toString.simps digit_char_def)
    ultimately show ?thesis
      by (simp add: scenarioEnv_def scenarioCoerce_def)
  qed
  have c: "\<exists>message. getItemData scenarioEnv ''SatisfactoryGame'' ''1.0.0''
                   = Inl (InvalidLockfileOperation message)"
    using known by (elim conjE)
  have d: "\<exists>node. getItemData scenarioEnv ''A'' ''1.0.0'' = Inr node
         \<and> node_id node = ''A'' \<and> node_version node = ''1.0.0''
         \<and> map_of (node_dependencies node) = [''SML'' \<mapsto> ''>=1.0.1'']"
    using known h4 h5 h6 by (simp add: scenarioEnv_def scenarioCoerce_def)
  from c d show ?thesis by (simp only: h1 h2 h3 h6 a b simp_thms)
qed

subsection \<open>C8: nothing dangles after cleanup\<close>

text \<open>
  Claim C8. After \<^verbatim>\<open>cleanup\<close>, every node left in the graph is in the manifest or has a
  dependant among the nodes left, also when a node loses its last dependant through a
  removal of the same cleanup.
\<close>

theorem cleanup_leaves_no_dangling_node:
  "\<forall>node \<in> set (cleanup g).
     isInManifest node
     \<or> (\<exists>dependant \<in> set (cleanup g). node_id node \<in> fst ` set (node_dependencies dependant))"
proof
  fix node
  assume mem: "node \<in> set (cleanup g)"
  have "\<not> list_ex (isNodeDangling (cleanup g)) (cleanup g)"
    unfolding cleanup_def by (rule removeArrayElementWhere_none_left)
  with mem have "\<not> isNodeDangling (cleanup g) node"
    by (auto simp: list_ex_iff)
  then show "isInManifest node
     \<or> (\<exists>dependant \<in> set (cleanup g). node_id node \<in> fst ` set (node_dependencies dependant))"
    by (auto simp: isNodeDangling_def getDependants_def filter_empty_conv)
qed

theorem cleanup_leaves_no_dangling_node_witness:
  "cleanup [leafV, danglingU, manifestM, neededW] = [manifestM, neededW]
   \<and> isInManifest manifestM \<and> \<not> isInManifest neededW
   \<and> (\<exists>dependant \<in> set [manifestM, neededW].
         node_id neededW \<in> fst ` set (node_dependencies dependant))"
proof -
  have run: "cleanup [leafV, danglingU, manifestM, neededW] = [manifestM, neededW]"
    by (simp add: cleanup_def removeArrayElementWhere.simps isNodeDangling_def getDependants_def
          leafV_def danglingU_def manifestM_def neededW_def)
  have pinned: "isInManifest manifestM" and free: "\<not> isInManifest neededW"
    by (simp_all add: manifestM_def neededW_def)
  have "neededW \<in> set (cleanup [leafV, danglingU, manifestM, neededW])"
    by (simp only: run) simp
  with cleanup_leaves_no_dangling_node [of "[leafV, danglingU, manifestM, neededW]"]
  have "isInManifest neededW
        \<or> (\<exists>dependant \<in> set (cleanup [leafV, danglingU, manifestM, neededW]).
              node_id neededW \<in> fst ` set (node_dependencies dependant))"
    by (rule bspec)
  with free have "\<exists>dependant \<in> set [manifestM, neededW].
         node_id neededW \<in> fst ` set (node_dependencies dependant)"
    by (simp only: run simp_thms)
  with run pinned free show ?thesis
    by (simp only: simp_thms)
qed

text \<open>
  One round is not enough on this graph: it removes \<^verbatim>\<open>U\<close>, and only then is \<^verbatim>\<open>V\<close> dangling.
\<close>

lemma cleanup_needs_a_second_round:
  "filter (\<lambda>node. \<not> isNodeDangling [leafV, danglingU, manifestM, neededW] node)
      [leafV, danglingU, manifestM, neededW] = [leafV, manifestM, neededW]
   \<and> isNodeDangling [leafV, manifestM, neededW] leafV"
  by (simp add: isNodeDangling_def getDependants_def
        leafV_def danglingU_def manifestM_def neededW_def)

subsection \<open>C9: the difference of two lockfiles\<close>

text \<open>
  Claim C9. \<^verbatim>\<open>uninstall\<close> lists, in the order of the old lockfile, exactly the ids of the old
  lockfile that are absent from the new one or have another version there; \<^verbatim>\<open>install\<close> maps
  exactly the ids of the new lockfile that are absent from the old one or have another
  version there, each to its new version. So an id whose version changed is in both, and
  the difference of a lockfile with itself is empty.
\<close>

theorem lockfileDifference_spec:
  "uninstall (lockfileDifference oldLockfile newLockfile)
     = filter (\<lambda>ident. map_of newLockfile ident = None
                 \<or> map_option item_version (map_of oldLockfile ident)
                     \<noteq> map_option item_version (map_of newLockfile ident))
         (map fst oldLockfile)
   \<and> map_of (install (lockfileDifference oldLockfile newLockfile)) ident
     = (if ident \<in> set (map fst newLockfile)
          \<and> (map_of oldLockfile ident = None
               \<or> map_option item_version (map_of oldLockfile ident)
                   \<noteq> map_option item_version (map_of newLockfile ident))
        then map_option item_version (map_of newLockfile ident) else None)
   \<and> lockfileDifference L L = \<lparr> install = [], uninstall = [] \<rparr>"
proof (intro conjI)
  have "\<And>ident. ident \<in> set (map fst oldLockfile) \<Longrightarrow>
      versionChanged oldLockfile newLockfile ident
       = (map_of newLockfile ident = None
                 \<or> map_option item_version (map_of oldLockfile ident)
                     \<noteq> map_option item_version (map_of newLockfile ident))"
  proof -
    fix ident
    assume "ident \<in> set (map fst oldLockfile)"
    then obtain oldItem where "map_of oldLockfile ident = Some oldItem"
      by (cases "map_of oldLockfile ident") (auto simp: map_of_eq_None_iff)
    then show "versionChanged oldLockfile newLockfile ident
       = (map_of newLockfile ident = None
                 \<or> map_option item_version (map_of oldLockfile ident)
                     \<noteq> map_option item_version (map_of newLockfile ident))"
      by (cases "map_of newLockfile ident") (simp_all add: versionChanged_def)
  qed
  then have "filter (versionChanged oldLockfile newLockfile) (map fst oldLockfile)
     = filter (\<lambda>ident. map_of newLockfile ident = None
                 \<or> map_option item_version (map_of oldLockfile ident)
                     \<noteq> map_option item_version (map_of newLockfile ident))
         (map fst oldLockfile)"
    by (intro filter_cong) simp_all
  then show "uninstall (lockfileDifference oldLockfile newLockfile)
     = filter (\<lambda>ident. map_of newLockfile ident = None
                 \<or> map_option item_version (map_of oldLockfile ident)
                     \<noteq> map_option item_version (map_of newLockfile ident))
         (map fst oldLockfile)"
    by (simp add: lockfileDifference_def uninstall_fold)
next
  show "map_of (install (lockfileDifference oldLockfile newLockfile)) ident
     = (if ident \<in> set (map fst newLockfile)
          \<and> (map_of oldLockfile ident = None
               \<or> map_option item_version (map_of oldLockfile ident)
                   \<noteq> map_option item_version (map_of newLockfile ident))
        then map_option item_version (map_of newLockfile ident) else None)"
  proof -
    have keys: "ident \<in> set (map fst newLockfile) \<longleftrightarrow> map_of newLockfile ident \<noteq> None"
      by (simp add: map_of_eq_None_iff)
    show ?thesis
      unfolding lockfileDifference_def
      by (cases "map_of oldLockfile ident"; cases "map_of newLockfile ident")
         (simp_all add: install_fold versionChanged_def keys del: set_map)
  qed
next
  show "lockfileDifference L L = \<lparr> install = [], uninstall = [] \<rparr>"
    by (simp add: lockfileDifference_def install_fold_nothing versionChanged_same del: set_map)
qed

theorem lockfileDifference_spec_witness:
  "uninstall (lockfileDifference oldLock newLock) = [''B'']
   \<and> map_of (install (lockfileDifference oldLock newLock)) ''B'' = Some ''2.0''
   \<and> lockfileDifference oldLock oldLock = \<lparr> install = [], uninstall = [] \<rparr>"
  using lockfileDifference_spec [of oldLock newLock "''B''" oldLock]
  by (simp add: oldLock_def newLock_def)

subsection \<open>C10: add cannot fail\<close>

text \<open>
  Claim C10. \<^verbatim>\<open>add\<close> never raises: it leaves the graph as it is when a node with the same id
  is present and appends the node otherwise, so the rethrowing branch is never taken; after
  it the graph holds a node with the id of the node given.
\<close>

theorem add_never_raises:
  "snd (add g node) = None
   \<and> fst (add g node) = (if list_ex (\<lambda>graphNode. node_id graphNode = node_id node) g then g else g @ [node])
   \<and> list_ex (\<lambda>graphNode. node_id graphNode = node_id node) (fst (add g node))"
  by (simp add: add_eq list_ex_iff)

theorem add_never_raises_witness:
  "snd (add [nodeN] nodeA2) = None \<and> fst (add [nodeN] nodeA2) = [nodeN, nodeA2]
   \<and> snd (add [nodeN, nodeA2] nodeA1) = None \<and> fst (add [nodeN, nodeA2] nodeA1) = [nodeN, nodeA2]"
  using add_never_raises [of "[nodeN]" nodeA2] add_never_raises [of "[nodeN, nodeA2]" nodeA1]
  by (simp add: nodeN_def nodeA2_def nodeA1_def)

end
